theory Spec2Isabelle
  imports Complex_Main "HOL-Library.AList" "HOL-Library.Multiset"
begin

section \<open>JavaScript strings\<close>

text \<open>
  A JavaScript string is modelled as a \<^typ>\<open>string\<close>, one \<^typ>\<open>char\<close> per code
  unit, for code units below 256 (the Latin-1 range). On that range
  \<^verbatim>\<open>String.prototype.toLowerCase\<close> maps A--Z and the accented capitals
  U+00C0--U+00DE (U+00D7 apart) to the letter 32 places up and leaves every other code
  unit alone; \<^verbatim>\<open>String.prototype.trim\<close> removes the white space and line
  terminators TAB, LF, VT, FF, CR, SPACE and NBSP from both ends.
\<close>

definition dquote :: char where
  "dquote = CHR 0x22"

definition comma :: char where
  "comma = CHR '',''"

definition LF :: char where
  "LF = CHR 0x0A"

definition CR :: char where
  "CR = CHR 0x0D"

definition isUpper :: "char \<Rightarrow> bool" where
  "isUpper c = (let n = (of_char c :: nat) in
     (65 \<le> n \<and> n \<le> 90) \<or> (192 \<le> n \<and> n \<le> 214) \<or> (216 \<le> n \<and> n \<le> 222))"

definition toLowerCase_char :: "char \<Rightarrow> char" where
  "toLowerCase_char c = (if isUpper c then char_of ((of_char c :: nat) + 32) else c)"

definition toLowerCase :: "string \<Rightarrow> string" where
  "toLowerCase s = map toLowerCase_char s"

definition isWhiteSpace :: "char \<Rightarrow> bool" where
  "isWhiteSpace c = (let n = (of_char c :: nat) in (9 \<le> n \<and> n \<le> 13) \<or> n = 32 \<or> n = 160)"

definition trimStart :: "string \<Rightarrow> string" where
  "trimStart s = dropWhile isWhiteSpace s"

definition trim :: "string \<Rightarrow> string" where
  "trim s = rev (trimStart (rev (trimStart s)))"

text \<open>\<^verbatim>\<open>s.startsWith(t)\<close> and \<^verbatim>\<open>s.includes(t)\<close>: \<open>t\<close> occurs in \<open>s\<close> as a
  contiguous run of code units.\<close>

fun startsWith :: "string \<Rightarrow> string \<Rightarrow> bool" where
  "startsWith s [] = True"
| "startsWith [] (d # t) = False"
| "startsWith (c # s) (d # t) = (c = d \<and> startsWith s t)"

fun includes_str :: "string \<Rightarrow> string \<Rightarrow> bool" where
  "includes_str [] t = (t = [])"
| "includes_str (c # s) t = (startsWith (c # s) t \<or> includes_str s t)"

text \<open>A string is truthy exactly when it is not empty; \<^verbatim>\<open>null\<close> is falsy.\<close>

definition truthy :: "string \<Rightarrow> bool" where
  "truthy s = (s \<noteq> [])"

text \<open>The decimal rendering of a non-negative integer in a template literal.\<close>

fun digit_char :: "nat \<Rightarrow> char" where
  "digit_char n = char_of (48 + n)"

fun string_of_nat :: "nat \<Rightarrow> string" where
  "string_of_nat n =
     (if n < 10 then [digit_char n] else string_of_nat (n div 10) @ [digit_char (n mod 10)])"

text \<open>\<^verbatim>\<open>parts.join(sep)\<close>.\<close>

fun join :: "string \<Rightarrow> string list \<Rightarrow> string" where
  "join sep [] = []"
| "join sep [x] = x"
| "join sep (x # y # xs) = x @ sep @ join sep (y # xs)"

section \<open>The durable key-value store\<close>

text \<open>
  \<^verbatim>\<open>localStorage\<close> holds string values under string keys. The browser bounds the
  space an origin may use: a write that would take the store beyond its quota throws
  \<^verbatim>\<open>QuotaExceededError\<close> and changes nothing (a quota of 0 is a store that accepts
  no write at all). Reads and removals do not throw.
\<close>

datatype error = TypeError | QuotaExceededError | InvalidStateError

type_synonym 's outcome = "(error \<times> 's) + 's"

fun state_after :: "'s outcome \<Rightarrow> 's" where
  "state_after (Inl (e, s)) = s"
| "state_after (Inr s) = s"

record storage =
  items :: "(string \<times> string) list"
  quota :: nat

fun store_size :: "(string \<times> string) list \<Rightarrow> nat" where
  "store_size [] = 0"
| "store_size ((k, v) # kvs) = length k + length v + store_size kvs"

definition getItem :: "storage \<Rightarrow> string \<Rightarrow> string option" where
  "getItem st k = map_of (items st) k"

definition setItem :: "storage \<Rightarrow> string \<Rightarrow> string \<Rightarrow> storage outcome" where
  "setItem st k v =
     (let items' = AList.update k v (items st)
      in if store_size items' \<le> quota st then Inr (st\<lparr>items := items'\<rparr>)
         else Inl (QuotaExceededError, st))"

definition removeItem :: "storage \<Rightarrow> string \<Rightarrow> storage" where
  "removeItem st k = st\<lparr>items := AList.delete k (items st)\<rparr>"

section \<open>Forms: validation and autosave\<close>

text \<open>
  What an assignment to the \<^verbatim>\<open>value\<close> of a control does depends on the control.
  \<^item> \<open>ValueControl sanitize\<close>: an \<^verbatim>\<open>input\<close> other than a file input, or a
    \<^verbatim>\<open>textarea\<close>. The control then holds what the value sanitization of its type
    makes of the assigned string: the string itself for hidden, checkbox, radio and button
    inputs; the string without its line breaks for text, search, tel and password inputs;
    the empty string for a number or date input given anything but a number or a date;
    the string with its line breaks normalised for a \<^verbatim>\<open>textarea\<close>.
  \<^item> \<open>SelectControl opts\<close>: a \<^verbatim>\<open>select\<close> whose options have the values
    \<open>opts\<close>. The assignment selects the first option with the assigned value; when
    there is none, no option is selected and the value is the empty string.
  \<^item> \<open>FileControl\<close>: an \<^verbatim>\<open>input\<close> of type file. Only the empty string can be
    assigned; any other string throws \<^verbatim>\<open>InvalidStateError\<close>.
\<close>

datatype control_kind =
    ValueControl "string \<Rightarrow> string"
  | SelectControl "string list"
  | FileControl

definition strip_newlines :: "string \<Rightarrow> string" where
  "strip_newlines s = filter (\<lambda>c. c \<noteq> LF \<and> c \<noteq> CR) s"

definition value_setter :: "control_kind \<Rightarrow> string \<Rightarrow> error + string" where
  "value_setter k s =
     (case k of
        ValueControl sanitize \<Rightarrow> Inr (sanitize s)
      | SelectControl opts \<Rightarrow> Inr (if s \<in> set opts then s else [])
      | FileControl \<Rightarrow> if s = [] then Inr [] else Inl InvalidStateError)"

text \<open>
  A form control, as the script sees it: the \<^verbatim>\<open>name\<close> attribute (which may be
  missing), the current \<^verbatim>\<open>value\<close>, whether the browser's constraint validation
  accepts the control, and what kind of control it is. The \<^verbatim>\<open>name\<close> property of a
  control reflects the attribute and is the empty string when the attribute is missing.
\<close>

record field =
  name_attr :: "string option"
  fvalue :: string
  fvalid :: bool
  kind :: control_kind

definition set_value :: "field \<Rightarrow> string \<Rightarrow> error + field" where
  "set_value inp s =
     (case value_setter (kind inp) s of
        Inl e \<Rightarrow> Inl e
      | Inr v \<Rightarrow> Inr (inp\<lparr>fvalue := v\<rparr>))"

definition input_name :: "field \<Rightarrow> string" where
  "input_name inp = (case name_attr inp of None \<Rightarrow> [] | Some n \<Rightarrow> n)"

record button =
  loading :: bool
  disabled :: bool
  innerHTML :: string

text \<open>
  A form: whether it carries \<^verbatim>\<open>data-autosave\<close>, its controls
  (\<^verbatim>\<open>form.querySelectorAll('input, select, textarea')\<close>, in document order), whether
  it has the class \<^verbatim>\<open>was-validated\<close>, its submit button if it has one, the index of
  the control that was last given focus, and the original button texts held by the
  pending 3000 ms fallback timers.
\<close>

record form =
  data_autosave :: bool
  inputs :: "field list"
  was_validated :: bool
  submitBtn :: "button option"
  focused :: "nat option"
  revert_timers :: "string list"

record event =
  defaultPrevented :: bool
  propagationStopped :: bool

definition new_event :: event where
  "new_event = \<lparr>defaultPrevented = False, propagationStopped = False\<rparr>"

definition autosave_key :: "field \<Rightarrow> string" where
  "autosave_key inp = ''autosave_'' @ input_name inp"

subsection \<open>initializeFormValidation: the submit listener\<close>

definition checkValidity :: "form \<Rightarrow> bool" where
  "checkValidity frm = list_all fvalid (inputs frm)"

fun firstInvalidField :: "field list \<Rightarrow> nat option" where
  "firstInvalidField [] = None"
| "firstInvalidField (inp # inps) =
     (if \<not> fvalid inp then Some 0 else map_option Suc (firstInvalidField inps))"

definition spinner :: string where
  "spinner = ''<span class=\"spinner-border spinner-border-sm me-2\"></span>Saving...''"

definition validation_submit_listener :: "form \<Rightarrow> event \<Rightarrow> form \<times> event" where
  "validation_submit_listener frm ev =
     (if \<not> checkValidity frm then
        (frm\<lparr>focused := (case firstInvalidField (inputs frm) of
                             None \<Rightarrow> focused frm | Some i \<Rightarrow> Some i),
              was_validated := True\<rparr>,
         ev\<lparr>defaultPrevented := True, propagationStopped := True\<rparr>)
      else
        ((case submitBtn frm of
            None \<Rightarrow> frm
          | Some btn \<Rightarrow>
              frm\<lparr>submitBtn := Some (btn\<lparr>loading := True, disabled := True,
                                           innerHTML := spinner\<rparr>),
                    revert_timers := revert_timers frm @ [innerHTML btn]\<rparr>)
           \<lparr>was_validated := True\<rparr>,
         ev))"

subsection \<open>initializeAutoSave\<close>

text \<open>
  Load saved data: the first half of the loop body over a form's controls. The assignment
  \<^verbatim>\<open>input.value = savedValue\<close> is made on whatever control the loop is at.
\<close>

definition restore_field :: "storage \<Rightarrow> field \<Rightarrow> error + field" where
  "restore_field st inp =
     (case getItem st (autosave_key inp) of
        None \<Rightarrow> Inr inp
      | Some savedValue \<Rightarrow>
          if truthy savedValue \<and> \<not> truthy (fvalue inp) then set_value inp savedValue
          else Inr inp)"

text \<open>The listener for \<^verbatim>\<open>input\<close> events that the loop body registers on a control.\<close>

definition autosave_input_listener :: "field \<Rightarrow> storage \<Rightarrow> storage outcome" where
  "autosave_input_listener inp st = setItem st (autosave_key inp) (fvalue inp)"

text \<open>The listener for \<^verbatim>\<open>submit\<close> events registered on an autosave form.\<close>

fun autosave_submit_listener :: "field list \<Rightarrow> storage \<Rightarrow> storage" where
  "autosave_submit_listener [] st = st"
| "autosave_submit_listener (inp # inps) st =
     autosave_submit_listener inps (removeItem st (autosave_key inp))"

text \<open>
  The loop over the controls of one form. An exception ends it: the controls before the
  one that threw have been restored, that one and the ones after it are as they were.
\<close>

fun restore_inputs :: "storage \<Rightarrow> field list \<Rightarrow> field list outcome" where
  "restore_inputs st [] = Inr []"
| "restore_inputs st (inp # inps) =
     (case restore_field st inp of
        Inl e \<Rightarrow> Inl (e, inp # inps)
      | Inr inp' \<Rightarrow>
          (case restore_inputs st inps of
             Inl (e, inps') \<Rightarrow> Inl (e, inp' # inps')
           | Inr inps' \<Rightarrow> Inr (inp' # inps')))"

text \<open>
  The load-time pass over the document's forms: only the forms selected by
  \<^verbatim>\<open>form[data-autosave]\<close> are visited. The store is only read. An exception ends
  the pass (and \<^verbatim>\<open>initializeApp\<close> with it); the result then carries the page as the
  pass left it.
\<close>

definition initializeAutoSave_form :: "storage \<Rightarrow> form \<Rightarrow> form outcome" where
  "initializeAutoSave_form st frm =
     (if data_autosave frm then
        (case restore_inputs st (inputs frm) of
           Inl (e, inps') \<Rightarrow> Inl (e, frm\<lparr>inputs := inps'\<rparr>)
         | Inr inps' \<Rightarrow> Inr (frm\<lparr>inputs := inps'\<rparr>))
      else Inr frm)"

fun initializeAutoSave :: "storage \<Rightarrow> form list \<Rightarrow> form list outcome" where
  "initializeAutoSave st [] = Inr []"
| "initializeAutoSave st (frm # frms) =
     (case initializeAutoSave_form st frm of
        Inl (e, frm') \<Rightarrow> Inl (e, frm' # frms)
      | Inr frm' \<Rightarrow>
          (case initializeAutoSave st frms of
             Inl (e, frms') \<Rightarrow> Inl (e, frm' # frms')
           | Inr frms' \<Rightarrow> Inr (frm' # frms')))"

subsection \<open>Event dispatch\<close>

text \<open>
  The listeners of one target run in the order of their registration.
  \<^verbatim>\<open>initializeApp\<close> calls \<^verbatim>\<open>initializeFormValidation\<close> before
  \<^verbatim>\<open>initializeAutoSave\<close>, so on an autosave form the validation listener runs first
  and the autosave listener second. \<^verbatim>\<open>stopPropagation\<close> keeps the event from other
  targets, not from the remaining listeners of the same target (that would be
  \<^verbatim>\<open>stopImmediatePropagation\<close>, which the script never calls).
\<close>

definition dispatch_submit :: "form \<Rightarrow> storage \<Rightarrow> form \<times> event \<times> storage" where
  "dispatch_submit frm st =
     (let (frm', ev) = validation_submit_listener frm new_event;
          st' = (if data_autosave frm then autosave_submit_listener (inputs frm) st else st)
      in (frm', ev, st'))"

text \<open>
  An exception that leaves a listener is reported to the page: the
  \<^verbatim>\<open>error\<close> listener on \<^verbatim>\<open>window\<close> logs it and shows one notification.
\<close>

type_synonym notification = "string \<times> string"

definition showNotification :: "string \<Rightarrow> string \<Rightarrow> notification list \<Rightarrow> notification list" where
  "showNotification message type ns = ns @ [(message, type)]"

definition window_error_listener :: "notification list \<Rightarrow> notification list" where
  "window_error_listener ns =
     showNotification ''An unexpected error occurred. Please refresh the page and try again.''
       ''danger'' ns"

text \<open>
  The browser fires \<^verbatim>\<open>input\<close> on a control of an autosave form after the user
  has changed its content: the autosave listener runs, and an exception it throws is
  reported.
\<close>

definition dispatch_input ::
  "field \<Rightarrow> storage \<times> notification list \<Rightarrow> storage \<times> notification list" where
  "dispatch_input inp env =
     (case autosave_input_listener inp (fst env) of
        Inr st' \<Rightarrow> (st', snd env)
      | Inl (e, st') \<Rightarrow> (st', window_error_listener (snd env)))"

section \<open>Search filter\<close>

text \<open>
  What \<^verbatim>\<open>performSearch\<close> sees of the page around one search input: the input's
  value; the elements selected by \<^verbatim>\<open>[data-searchable]\<close> inside
  \<^verbatim>\<open>input.closest('.card, .container')\<close>, in document order, or \<open>None\<close> when
  no ancestor matches and \<^verbatim>\<open>closest\<close> returns \<^verbatim>\<open>null\<close>; and the status
  line \<^verbatim>\<open>input.parentNode.querySelector('.search-count')\<close> if there is one.
\<close>

record element =
  textContent :: string
  display :: string

record count_element =
  className :: string
  count_text :: string
  count_display :: string

record search_view =
  input_value :: string
  searchable :: "element list option"
  search_count :: "count_element option"

definition updateSearchResultCount :: "search_view \<Rightarrow> nat \<Rightarrow> nat \<Rightarrow> search_view" where
  "updateSearchResultCount sv visible totalCount =
     (let countElement = (case search_count sv of
                            None \<Rightarrow> \<lparr>className = ''search-count text-muted mt-1 d-block'',
                                     count_text = [], count_display = []\<rparr>
                          | Some c \<Rightarrow> c)
      in if truthy (trim (input_value sv)) then
           sv\<lparr>search_count := Some (countElement
                  \<lparr>count_text := ''Showing '' @ string_of_nat visible @ '' of '' @
                                  string_of_nat totalCount @ '' results'',
                   count_display := ''block''\<rparr>)\<rparr>
         else sv\<lparr>search_count := Some (countElement\<lparr>count_display := ''none''\<rparr>)\<rparr>)"

definition filter_element :: "string \<Rightarrow> element \<Rightarrow> element" where
  "filter_element searchTerm el =
     (let text = toLowerCase (textContent el);
          isVisible = (\<not> truthy searchTerm \<or> includes_str text searchTerm)
      in el\<lparr>display := (if isVisible then [] else ''none'')\<rparr>)"

definition performSearch :: "search_view \<Rightarrow> search_view outcome" where
  "performSearch sv =
     (let searchTerm = trim (toLowerCase (input_value sv))
      in case searchable sv of
           None \<Rightarrow> Inl (TypeError, sv)
         | Some searchableElements \<Rightarrow>
             if length searchableElements = 0 then Inr sv
             else
               let shown = map (filter_element searchTerm) searchableElements;
                   visibleCount = length (filter (\<lambda>el. display el \<noteq> ''none'') shown)
               in Inr (updateSearchResultCount (sv\<lparr>searchable := Some shown\<rparr>)
                         visibleCount (length shown)))"

subsection \<open>The debounce timer of initializeSearch\<close>

text \<open>
  One search input with the timers it has scheduled. Time is counted in milliseconds.
  \<^verbatim>\<open>setTimeout\<close> hands out a fresh handle each time and the timer is due 300 ms
  later; \<^verbatim>\<open>clearTimeout\<close> removes the timer with the given handle, if it is still
  pending, and does nothing for \<^verbatim>\<open>undefined\<close>. \<open>searchTimeout\<close> is the variable
  of the closure. \<open>clearBtn\<close> tells whether the clear button is on the page: it is
  added at load time when the input is not empty. \<open>passes\<close> is the trace of the calls
  of \<^verbatim>\<open>performSearch\<close>: the input text each call read.
\<close>

record debounce =
  view :: search_view
  searchTimeout :: "nat option"
  clock :: nat
  next_handle :: nat
  timers :: "(nat \<times> nat) list"
  clearBtn :: bool
  passes :: "string list"

definition initializeSearch :: "search_view \<Rightarrow> debounce" where
  "initializeSearch sv =
     \<lparr>view = sv, searchTimeout = None, clock = 0, next_handle = 1, timers = [],
      clearBtn = truthy (input_value sv), passes = []\<rparr>"

definition clearTimeout :: "nat option \<Rightarrow> (nat \<times> nat) list \<Rightarrow> (nat \<times> nat) list" where
  "clearTimeout handle ts =
     (case handle of None \<Rightarrow> ts | Some h \<Rightarrow> filter (\<lambda>(h', due). h' \<noteq> h) ts)"

definition search_input_listener :: "debounce \<Rightarrow> debounce" where
  "search_input_listener s =
     (let ts = clearTimeout (searchTimeout s) (timers s);
          h = next_handle s
      in s\<lparr>timers := ts @ [(h, clock s + 300)], next_handle := h + 1,
            searchTimeout := Some h\<rparr>)"

text \<open>A content change: the browser sets the value and fires \<^verbatim>\<open>input\<close>.\<close>

definition content_change :: "string \<Rightarrow> debounce \<Rightarrow> debounce" where
  "content_change v s = search_input_listener (s\<lparr>view := (view s)\<lparr>input_value := v\<rparr>\<rparr>)"

text \<open>
  A timer fires: its callback calls \<^verbatim>\<open>performSearch(input)\<close>, which reads the value
  the input has at that moment. An exception of the callback is reported to the page and
  leaves the view as it was.
\<close>

definition fire_timer :: "debounce \<Rightarrow> debounce" where
  "fire_timer s =
     s\<lparr>view := state_after (performSearch (view s)),
       passes := passes s @ [input_value (view s)]\<rparr>"

text \<open>
  \<open>dt\<close> milliseconds pass without an event: the timers that are due by then fire, in
  the order they were scheduled, and leave the table of pending timers.
\<close>

definition elapse :: "nat \<Rightarrow> debounce \<Rightarrow> debounce" where
  "elapse dt s =
     (let t = clock s + dt;
          due = filter (\<lambda>(h, d). d \<le> t) (timers s);
          rest = filter (\<lambda>(h, d). \<not> d \<le> t) (timers s)
      in fold (\<lambda>_. fire_timer) due (s\<lparr>clock := t, timers := rest\<rparr>))"

text \<open>
  A click on the clear button empties the input, dispatches \<^verbatim>\<open>input\<close> and removes
  the button.
\<close>

definition clear_click :: "debounce \<Rightarrow> debounce" where
  "clear_click s = (if clearBtn s then (content_change [] s)\<lparr>clearBtn := False\<rparr> else s)"

datatype action = Change string | Elapse nat | ClearClick

fun step :: "action \<Rightarrow> debounce \<Rightarrow> debounce" where
  "step (Change v) s = content_change v s"
| "step (Elapse dt) s = elapse dt s"
| "step ClearClick s = clear_click s"

fun run :: "action list \<Rightarrow> debounce \<Rightarrow> debounce" where
  "run [] s = s"
| "run (a # as) s = run as (step a s)"

text \<open>
  A burst of content changes: each one arrives \<open>gap\<close> milliseconds after the one
  before it.
\<close>

fun burst :: "(nat \<times> string) list \<Rightarrow> debounce \<Rightarrow> debounce" where
  "burst [] s = s"
| "burst ((gap, v) # es) s = burst es (content_change v (elapse gap s))"

section \<open>Table utilities\<close>

text \<open>
  A row is the list of the \<^verbatim>\<open>textContent\<close> of its cells. A table has the rows of
  its head, the rows of its first \<^verbatim>\<open>tbody\<close> (\<open>None\<close> when it has no
  \<^verbatim>\<open>tbody\<close> and \<^verbatim>\<open>querySelector\<close> returns \<^verbatim>\<open>null\<close>) and the rows of
  its foot. Cells hold text only, no table of their own.
\<close>

type_synonym row = "string list"

record table =
  thead :: "row list"
  tbody :: "row list option"
  tfoot :: "row list"

definition body_rows :: "table \<Rightarrow> row list" where
  "body_rows t = (case tbody t of None \<Rightarrow> [] | Some rs \<Rightarrow> rs)"

subsection \<open>sortTable\<close>

text \<open>
  A number is a rational or \<open>None\<close> for \<^verbatim>\<open>NaN\<close>; rounding to a double is not
  modelled. \<^verbatim>\<open>parseFloat\<close> is only applied to what
  \<^verbatim>\<open>replace(/[^0-9.-]/g, '')\<close> leaves: it reads the longest prefix of the form
  \<^verbatim>\<open>-?digits(.digits?)?\<close> or \<^verbatim>\<open>-?.digits\<close>, and gives \<^verbatim>\<open>NaN\<close> when there
  is none.
\<close>

definition isDigit :: "char \<Rightarrow> bool" where
  "isDigit c = (let n = (of_char c :: nat) in 48 \<le> n \<and> n \<le> 57)"

definition strip_non_numeric :: "string \<Rightarrow> string" where
  "strip_non_numeric s = filter (\<lambda>c. isDigit c \<or> c = CHR ''.'' \<or> c = CHR ''-'') s"

definition digits_value :: "string \<Rightarrow> nat" where
  "digits_value ds = foldl (\<lambda>acc c. 10 * acc + (of_char c - 48)) 0 ds"

definition parseFloat :: "string \<Rightarrow> rat option" where
  "parseFloat s =
     (let negative = (case s of [] \<Rightarrow> False | c # _ \<Rightarrow> c = CHR ''-'');
          r = (if negative then tl s else s);
          intPart = takeWhile isDigit r;
          r' = dropWhile isDigit r;
          fracPart = (case r' of [] \<Rightarrow> [] | c # r'' \<Rightarrow>
                        if c = CHR ''.'' then takeWhile isDigit r'' else [])
      in if intPart = [] \<and> fracPart = [] then None
         else
           let m = of_nat (digits_value intPart) +
                   of_nat (digits_value fracPart) / 10 ^ length fracPart
           in Some (if negative then - m else m))"

definition number_minus :: "rat option \<Rightarrow> rat option \<Rightarrow> rat option" where
  "number_minus x y =
     (case x of None \<Rightarrow> None | Some a \<Rightarrow> (case y of None \<Rightarrow> None | Some b \<Rightarrow> Some (a - b)))"

text \<open>
  The comparator passed to \<^verbatim>\<open>rows.sort\<close>. A row without a cell at the column
  makes \<^verbatim>\<open>a.cells[columnIndex]\<close> \<^verbatim>\<open>undefined\<close>, and reading its
  \<^verbatim>\<open>textContent\<close> throws. \<^verbatim>\<open>localeCompare\<close> is the browser's collation and a
  parameter here.
\<close>

definition cell_text :: "row \<Rightarrow> nat \<Rightarrow> error + string" where
  "cell_text r columnIndex =
     (if columnIndex < length r then Inr (trim (r ! columnIndex)) else Inl TypeError)"

definition compare_rows ::
  "(string \<Rightarrow> string \<Rightarrow> int) \<Rightarrow> nat \<Rightarrow> bool \<Rightarrow> row \<Rightarrow> row \<Rightarrow> error + rat option" where
  "compare_rows localeCompare columnIndex isNumeric a b =
     (case cell_text a columnIndex of
        Inl e \<Rightarrow> Inl e
      | Inr aVal \<Rightarrow>
          (case cell_text b columnIndex of
             Inl e \<Rightarrow> Inl e
           | Inr bVal \<Rightarrow>
               if isNumeric then
                 Inr (number_minus (parseFloat (strip_non_numeric aVal))
                                   (parseFloat (strip_non_numeric bVal)))
               else Inr (Some (of_int (localeCompare aVal bVal)))))"

text \<open>
  \<^verbatim>\<open>Array.prototype.sort\<close> with a comparator: a stable sort in which a negative
  result puts the first argument first, and zero and \<^verbatim>\<open>NaN\<close> keep the order. Which
  pairs the engine compares is its own affair; the model is an insertion sort. An
  exception of the comparator ends the sort.
\<close>

definition precedes :: "rat option \<Rightarrow> bool" where
  "precedes v = (case v of None \<Rightarrow> False | Some r \<Rightarrow> r < 0)"

fun insert_sorted :: "('a \<Rightarrow> 'a \<Rightarrow> error + rat option) \<Rightarrow> 'a \<Rightarrow> 'a list \<Rightarrow> error + 'a list" where
  "insert_sorted cmp x [] = Inr [x]"
| "insert_sorted cmp x (y # ys) =
     (case cmp x y of
        Inl e \<Rightarrow> Inl e
      | Inr v \<Rightarrow>
          if precedes v then Inr (x # y # ys)
          else (case insert_sorted cmp x ys of Inl e \<Rightarrow> Inl e | Inr zs \<Rightarrow> Inr (y # zs)))"

fun sort_from :: "('a \<Rightarrow> 'a \<Rightarrow> error + rat option) \<Rightarrow> 'a list \<Rightarrow> 'a list \<Rightarrow> error + 'a list" where
  "sort_from cmp acc [] = Inr acc"
| "sort_from cmp acc (x # xs) =
     (case insert_sorted cmp x acc of Inl e \<Rightarrow> Inl e | Inr acc' \<Rightarrow> sort_from cmp acc' xs)"

definition array_sort :: "('a \<Rightarrow> 'a \<Rightarrow> error + rat option) \<Rightarrow> 'a list \<Rightarrow> error + 'a list" where
  "array_sort cmp xs = sort_from cmp [] xs"

text \<open>
  \<^verbatim>\<open>tbody.appendChild(row)\<close> for a row that is a child already moves it to the end.
\<close>

definition appendChild :: "row \<Rightarrow> row list \<Rightarrow> row list" where
  "appendChild r children = remove1 r children @ [r]"

definition sortTable ::
  "(string \<Rightarrow> string \<Rightarrow> int) \<Rightarrow> table \<Rightarrow> nat \<Rightarrow> bool \<Rightarrow> table outcome" where
  "sortTable localeCompare t columnIndex isNumeric =
     (case tbody t of
        None \<Rightarrow> Inl (TypeError, t)
      | Some rows \<Rightarrow>
          (case array_sort (compare_rows localeCompare columnIndex isNumeric) rows of
             Inl e \<Rightarrow> Inl (e, t)
           | Inr sorted_rows \<Rightarrow> Inr (t\<lparr>tbody := Some (fold appendChild sorted_rows rows)\<rparr>)))"

subsection \<open>exportTableToCSV\<close>

definition replace_quotes :: "string \<Rightarrow> string" where
  "replace_quotes s = concat (map (\<lambda>c. if c = dquote then [dquote, dquote] else [c]) s)"

definition csv_cell :: "string \<Rightarrow> string" where
  "csv_cell cellText =
     (let text = trim cellText
      in if includes_str text [comma] \<or> includes_str text [dquote]
         then [dquote] @ replace_quotes text @ [dquote]
         else text)"

definition csv_row :: "row \<Rightarrow> string" where
  "csv_row r = join [comma] (map csv_cell r)"

text \<open>
  What the export sees of the document: the elements that carry an id, in document order,
  each with the rows \<^verbatim>\<open>querySelectorAll('tr')\<close> finds below it in document order
  (an element with the id need not be a table and may hold no row at all), and the rows
  of the first \<^verbatim>\<open>table\<close> of the document, if there is a table. A row is the list of
  the texts of its \<^verbatim>\<open>th\<close> and \<^verbatim>\<open>td\<close> cells.
\<close>

record export_document =
  elements_by_id :: "(string \<times> row list) list"
  first_table :: "row list option"

text \<open>
  \<^verbatim>\<open>document.getElementById(tableId) || document.querySelector('table')\<close>: the
  first element with the id, whatever it is, and the first table only when no element has
  the id.
\<close>

definition find_table :: "export_document \<Rightarrow> string \<Rightarrow> row list option" where
  "find_table doc tableId =
     (case map_of (elements_by_id doc) tableId of
        Some rows \<Rightarrow> Some rows
      | None \<Rightarrow> first_table doc)"

definition csvContent :: "row list \<Rightarrow> string" where
  "csvContent rows = join [LF] (map csv_row rows)"

text \<open>
  The result is the download the function triggers, file name and content, or \<open>None\<close>
  when it returns early.
\<close>

definition exportTableToCSV ::
  "export_document \<Rightarrow> string \<Rightarrow> string \<Rightarrow> (string \<times> string) option" where
  "exportTableToCSV doc tableId filename =
     (case find_table doc tableId of
        None \<Rightarrow> None
      | Some rows \<Rightarrow> Some (filename, csvContent rows))"

subsection \<open>A reader of CSV records\<close>

text \<open>
  The reader the export is measured against, after RFC 4180: fields are separated by
  commas; a field that starts with a double quote runs to the closing double quote, and
  two double quotes inside it stand for one; outside quotes a line break ends the record.
  \<open>csv_read_record\<close> reads the first record of its input.
\<close>

fun read_field :: "string \<Rightarrow> string list"
  and read_plain :: "string \<Rightarrow> string \<Rightarrow> string list"
  and read_quoted :: "string \<Rightarrow> string \<Rightarrow> string list" where
  "read_field [] = [[]]"
| "read_field (c # cs) = (if c = dquote then read_quoted [] cs else read_plain [] (c # cs))"
| "read_plain acc [] = [rev acc]"
| "read_plain acc (c # cs) =
     (if c = comma then rev acc # read_field cs
      else if c = LF \<or> c = CR then [rev acc]
      else read_plain (c # acc) cs)"
| "read_quoted acc [] = [rev acc]"
| "read_quoted acc [c] = (if c = dquote then [rev acc] else [rev (c # acc)])"
| "read_quoted acc (c # d # cs) =
     (if c = dquote then
        (if d = dquote then read_quoted (dquote # acc) cs else read_plain acc (d # cs))
      else read_quoted (c # acc) (d # cs))"

definition csv_read_record :: "string \<Rightarrow> string list" where
  "csv_read_record s = read_field s"

text \<open>
  A cell text survives the reader when the export quotes it or it holds no line break.
\<close>

definition line_safe :: "string \<Rightarrow> bool" where
  "line_safe t = (comma \<in> set t \<or> dquote \<in> set t \<or> (LF \<notin> set t \<and> CR \<notin> set t))"

section \<open>Invariants of the debounce timer\<close>

text \<open>
  At most one timer is pending; it is the one \<open>searchTimeout\<close> names, and it is due
  within the next 300 ms. Right after a content change the timer is due in exactly 300 ms.
\<close>

definition debounce_inv :: "debounce \<Rightarrow> bool" where
  "debounce_inv s =
     (case timers s of
        [] \<Rightarrow> True
      | [(h, d)] \<Rightarrow> searchTimeout s = Some h \<and> clock s < d \<and> d \<le> clock s + 300
      | _ \<Rightarrow> False)"

definition just_scheduled :: "debounce \<Rightarrow> bool" where
  "just_scheduled s =
     (case timers s of
        [(h, d)] \<Rightarrow> searchTimeout s = Some h \<and> d = clock s + 300
      | _ \<Rightarrow> False)"

section \<open>Example pages\<close>

text \<open>
  A store with two entries, two autosave forms that both hold a text input named
  \<open>email\<close>, a control without a name, and a note too long for what is left of the quota.
\<close>

definition ex_store :: storage where
  "ex_store = \<lparr>items = [(''autosave_email'', ''a@b.c''), (''autosave_'', ''ghost'')], quota = 60\<rparr>"

definition ex_email :: field where
  "ex_email = \<lparr>name_attr = Some ''email'', fvalue = [], fvalid = True,
     kind = ValueControl strip_newlines\<rparr>"

definition ex_unnamed :: field where
  "ex_unnamed = \<lparr>name_attr = None, fvalue = [], fvalid = False,
     kind = ValueControl strip_newlines\<rparr>"

definition ex_form :: form where
  "ex_form = \<lparr>data_autosave = True, inputs = [ex_email, ex_unnamed], was_validated = False,
     submitBtn = None, focused = None, revert_timers = []\<rparr>"

definition ex_form_b :: form where
  "ex_form_b = \<lparr>data_autosave = True,
     inputs = [\<lparr>name_attr = Some ''phone'', fvalue = ''555'', fvalid = True,
                kind = ValueControl strip_newlines\<rparr>, ex_email],
     was_validated = False, submitBtn = None, focused = None, revert_timers = []\<rparr>"

definition ex_note :: field where
  "ex_note = \<lparr>name_attr = Some ''note'', fvalue = ''a long note that does not fit'',
     fvalid = True, kind = ValueControl strip_newlines\<rparr>"

text \<open>
  A select named \<open>colour\<close> with the options \<open>red\<close> and \<open>blue\<close>, a text input of the
  same name, a file input named \<open>scan\<close> with the value the browser reports for a chosen
  file, a second note, and a roomy store that holds a colour no option has and a file
  name.
\<close>

definition ex_select :: field where
  "ex_select = \<lparr>name_attr = Some ''colour'', fvalue = [], fvalid = True,
     kind = SelectControl [''red'', ''blue'']\<rparr>"

definition ex_colour :: field where
  "ex_colour = \<lparr>name_attr = Some ''colour'', fvalue = [], fvalid = True,
     kind = ValueControl strip_newlines\<rparr>"

definition ex_file :: field where
  "ex_file = \<lparr>name_attr = Some ''scan'', fvalue = [], fvalid = True, kind = FileControl\<rparr>"

definition fakepath :: string where
  "fakepath = ''C:'' @ [CHR 0x5C] @ ''fakepath'' @ [CHR 0x5C] @ ''scan.png''"

definition ex_empty_note :: field where
  "ex_empty_note = \<lparr>name_attr = Some ''note'', fvalue = [], fvalid = True,
     kind = ValueControl strip_newlines\<rparr>"

definition ex_roomy_store :: storage where
  "ex_roomy_store = \<lparr>items = [(''autosave_colour'', ''teal''), (''autosave_scan'', fakepath),
     (''autosave_email'', ''a@b.c'')], quota = 1000\<rparr>"

definition autosave_form :: "field list \<Rightarrow> form" where
  "autosave_form inps = \<lparr>data_autosave = True, inputs = inps, was_validated = False,
     submitBtn = None, focused = None, revert_timers = []\<rparr>"

definition ex_view :: search_view where
  "ex_view = \<lparr>input_value = [],
     searchable = Some [\<lparr>textContent = ''Cab'', display = []\<rparr>,
                        \<lparr>textContent = ''xyz'', display = []\<rparr>],
     search_count = None\<rparr>"

definition ex_table :: table where
  "ex_table = \<lparr>thead = [[''Qty'', ''Item'']],
     tbody = Some [[''10'', ''bolt''], [''2'', ''nut''], [''1'', ''cog'']], tfoot = []\<rparr>"

section \<open>Properties of the durable store\<close>

lemma getItem_setItem:
  "setItem st k v = Inr st' \<Longrightarrow> getItem st' k' = (if k' = k then Some v else getItem st k')"
  by (auto simp: setItem_def getItem_def Let_def update_conv' split: if_splits)

lemma setItem_fits:
  "store_size (AList.update k v (items st)) \<le> quota st \<Longrightarrow>
   setItem st k v = Inr (st\<lparr>items := AList.update k v (items st)\<rparr>)"
  by (simp add: setItem_def)

lemma setItem_full:
  "quota st < store_size (AList.update k v (items st)) \<Longrightarrow>
   setItem st k v = Inl (QuotaExceededError, st)"
  by (simp add: setItem_def)

lemma getItem_removeItem:
  "getItem (removeItem st k) k' = (if k' = k then None else getItem st k')"
  by (simp add: getItem_def removeItem_def delete_conv')

lemma getItem_autosave_submit_listener:
  "getItem (autosave_submit_listener inps st) k =
     (if k \<in> autosave_key ` set inps then None else getItem st k)"
  by (induction inps arbitrary: st) (auto simp: getItem_removeItem)

section \<open>Properties of the autosave binder\<close>

lemma set_value_Inr:
  "set_value inp s = Inr inp' \<longleftrightarrow>
     (\<exists>v. value_setter (kind inp) s = Inr v \<and> inp' = inp\<lparr>fvalue := v\<rparr>)"
  by (auto simp: set_value_def split: sum.splits)

lemma restore_field_nonempty: "fvalue inp \<noteq> [] \<Longrightarrow> restore_field st inp = Inr inp"
  by (simp add: restore_field_def truthy_def split: option.splits)

lemma restore_field_Inr:
  assumes "restore_field st inp = Inr inp'"
  shows "name_attr inp' = name_attr inp" and "kind inp' = kind inp"
    and "case getItem st (autosave_key inp) of
           None \<Rightarrow> fvalue inp' = fvalue inp
         | Some v \<Rightarrow>
             if v \<noteq> [] \<and> fvalue inp = [] then value_setter (kind inp) v = Inr (fvalue inp')
             else fvalue inp' = fvalue inp"
  using assms
  by (auto simp: restore_field_def truthy_def set_value_Inr split: option.splits if_splits)


lemma restore_inputs_Inr:
  "restore_inputs st inps = Inr inps' \<Longrightarrow>
   list_all2 (\<lambda>inp inp'. restore_field st inp = Inr inp') inps inps'"
proof (induction inps arbitrary: inps')
  case Nil
  then show ?case by simp
next
  case (Cons inp inps)
  then show ?case
    by (auto split: sum.splits prod.splits)
qed

lemma restore_inputs_length: "length (state_after (restore_inputs st inps)) = length inps"
  by (induction inps) (auto split: sum.splits prod.splits)

lemma restore_inputs_keeps:
  "i < length inps \<Longrightarrow> fvalue (inps ! i) \<noteq> [] \<Longrightarrow>
   state_after (restore_inputs st inps) ! i = inps ! i"
proof (induction inps arbitrary: i)
  case Nil
  then show ?case by simp
next
  case (Cons inp inps)
  show ?case
  proof (cases i)
    case 0
    with Cons.prems have "restore_field st inp = Inr inp"
      by (simp add: restore_field_nonempty)
    with 0 show ?thesis by (simp split: sum.splits prod.splits)
  next
    case (Suc k)
    with Cons.prems have "state_after (restore_inputs st inps) ! k = inps ! k"
      by (intro Cons.IH) simp_all
    with Suc show ?thesis by (auto split: sum.splits prod.splits)
  qed
qed

lemma initializeAutoSave_form_inputs:
  "inputs (state_after (initializeAutoSave_form st frm)) =
     (if data_autosave frm then state_after (restore_inputs st (inputs frm)) else inputs frm)"
  by (auto simp: initializeAutoSave_form_def split: sum.splits prod.splits)

lemma initializeAutoSave_form_Inr:
  "initializeAutoSave_form st frm = Inr frm' \<Longrightarrow> data_autosave frm \<Longrightarrow>
   restore_inputs st (inputs frm) = Inr (inputs frm')"
  by (auto simp: initializeAutoSave_form_def split: sum.splits prod.splits)

lemma initializeAutoSave_Inr:
  "initializeAutoSave st forms = Inr forms' \<Longrightarrow>
   list_all2 (\<lambda>frm frm'. initializeAutoSave_form st frm = Inr frm') forms forms'"
proof (induction forms arbitrary: forms')
  case Nil
  then show ?case by simp
next
  case (Cons frm forms)
  then show ?case
    by (auto split: sum.splits prod.splits)
qed

lemma initializeAutoSave_nth:
  assumes "initializeAutoSave st forms = Inr forms'"
    and "j < length forms" and "data_autosave (forms ! j)"
    and "i < length (inputs (forms ! j))"
  shows "restore_field st (inputs (forms ! j) ! i) = Inr (inputs (forms' ! j) ! i)"
proof -
  have "initializeAutoSave_form st (forms ! j) = Inr (forms' ! j)"
    using initializeAutoSave_Inr [OF assms(1)] assms(2) by (rule list_all2_nthD)
  then have "restore_inputs st (inputs (forms ! j)) = Inr (inputs (forms' ! j))"
    using assms(3) by (rule initializeAutoSave_form_Inr)
  then have "list_all2 (\<lambda>inp inp'. restore_field st inp = Inr inp')
               (inputs (forms ! j)) (inputs (forms' ! j))"
    by (rule restore_inputs_Inr)
  then show ?thesis using assms(4) by (rule list_all2_nthD)
qed

lemma initializeAutoSave_after_nth:
  "j < length forms \<Longrightarrow>
   state_after (initializeAutoSave st forms) ! j = forms ! j \<or>
   state_after (initializeAutoSave st forms) ! j =
     state_after (initializeAutoSave_form st (forms ! j))"
proof (induction forms arbitrary: j)
  case Nil
  then show ?case by simp
next
  case (Cons frm forms)
  show ?case
  proof (cases j)
    case 0
    then show ?thesis by (auto split: sum.splits prod.splits)
  next
    case (Suc k)
    with Cons.prems have "k < length forms" by simp
    from Cons.IH [OF this] Suc show ?thesis
      by (auto split: sum.splits prod.splits)
  qed
qed

lemma initializeAutoSave_keeps:
  assumes "j < length forms" and "i < length (inputs (forms ! j))"
    and "fvalue (inputs (forms ! j) ! i) \<noteq> []"
  shows "inputs (state_after (initializeAutoSave st forms) ! j) ! i = inputs (forms ! j) ! i"
  using initializeAutoSave_after_nth [OF assms(1), of st] assms(2,3)
  by (auto simp: initializeAutoSave_form_inputs restore_inputs_keeps)

lemma autosave_key_fvalue [simp]: "autosave_key (inp\<lparr>fvalue := v\<rparr>) = autosave_key inp"
  by (simp add: autosave_key_def input_name_def)

lemma autosave_key_eq: "input_name a = input_name b \<Longrightarrow> autosave_key a = autosave_key b"
  by (simp add: autosave_key_def)

lemma getItem_after_input:
  "autosave_input_listener (inp\<lparr>fvalue := v\<rparr>) st = Inr st' \<Longrightarrow>
   getItem st' (autosave_key inp) = Some v"
  by (simp add: autosave_input_listener_def getItem_setItem)

lemma restored_after_write:
  assumes "getItem st (autosave_key ctl) = Some v" and "fvalue ctl = []"
    and "restore_field st ctl = Inr ctl'"
  shows "(v = [] \<longrightarrow> fvalue ctl' = [])
     \<and> (v \<noteq> [] \<longrightarrow> value_setter (kind ctl) v = Inr (fvalue ctl'))
     \<and> (value_setter (kind ctl) v = Inr v \<longrightarrow> fvalue ctl' = v)"
  using restore_field_Inr(3) [OF assms(3)] assms(1,2)
  by (cases "v = []") auto

text \<open>
  Claim C1 as stated (after the load-time pass every empty control with a stored value
  holds that value) fails: a select none of whose options has the stored value stays
  empty, and a file input with a stored value makes the assignment throw, which ends the
  pass, so that the empty text input after it is not restored either.
\<close>

theorem restore_on_load_counterexample:
  "getItem ex_roomy_store (''autosave_'' @ input_name ex_select) = Some ''teal''
   \<and> fvalue ex_select = []
   \<and> initializeAutoSave ex_roomy_store [autosave_form [ex_select]] =
       Inr [autosave_form [ex_select]]
   \<and> getItem ex_roomy_store (''autosave_'' @ input_name ex_email) = Some ''a@b.c''
   \<and> fvalue ex_email = []
   \<and> initializeAutoSave ex_roomy_store [autosave_form [ex_file, ex_email]] =
       Inl (InvalidStateError, [autosave_form [ex_file, ex_email]])"
  by (simp add: ex_roomy_store_def ex_select_def ex_email_def ex_file_def autosave_form_def
      fakepath_def getItem_def input_name_def initializeAutoSave_form_def restore_field_def
      autosave_key_def truthy_def set_value_def value_setter_def)

text \<open>
  Claim C1, amended. For every control of a form marked for autosave, when the load-time
  pass runs to its end: if a non-empty value is stored under \<^verbatim>\<open>autosave_<name>\<close> and
  the control was empty, that value has been assigned to the control, which then holds
  what its value setter makes of it, the stored value itself for a control that stores
  assigned text as it is; otherwise the control's value is unchanged. Whether or not the
  pass runs to its end, a control that already has a value is never overwritten.
\<close>

theorem restore_on_load:
  assumes "j < length forms" and "data_autosave (forms ! j)"
    and "i < length (inputs (forms ! j))"
  shows "(initializeAutoSave st forms = Inr forms' \<longrightarrow>
           (case getItem st (''autosave_'' @ input_name (inputs (forms ! j) ! i)) of
              None \<Rightarrow> fvalue (inputs (forms' ! j) ! i) = fvalue (inputs (forms ! j) ! i)
            | Some v \<Rightarrow>
                if v \<noteq> [] \<and> fvalue (inputs (forms ! j) ! i) = []
                then value_setter (kind (inputs (forms ! j) ! i)) v =
                       Inr (fvalue (inputs (forms' ! j) ! i))
                else fvalue (inputs (forms' ! j) ! i) = fvalue (inputs (forms ! j) ! i)))
     \<and> (initializeAutoSave st forms = Inr forms' \<and>
        getItem st (''autosave_'' @ input_name (inputs (forms ! j) ! i)) = Some v \<and>
        fvalue (inputs (forms ! j) ! i) = [] \<and>
        value_setter (kind (inputs (forms ! j) ! i)) v = Inr v \<longrightarrow>
          fvalue (inputs (forms' ! j) ! i) = v)
     \<and> (fvalue (inputs (forms ! j) ! i) \<noteq> [] \<longrightarrow>
          fvalue (inputs (state_after (initializeAutoSave st forms) ! j) ! i) =
          fvalue (inputs (forms ! j) ! i))"
proof -
  let ?ctl = "inputs (forms ! j) ! i"
  have k: "''autosave_'' @ input_name ?ctl = autosave_key ?ctl"
    by (simp add: autosave_key_def)
  have a: "case getItem st (autosave_key ?ctl) of
              None \<Rightarrow> fvalue (inputs (forms' ! j) ! i) = fvalue ?ctl
            | Some v \<Rightarrow>
                if v \<noteq> [] \<and> fvalue ?ctl = []
                then value_setter (kind ?ctl) v = Inr (fvalue (inputs (forms' ! j) ! i))
                else fvalue (inputs (forms' ! j) ! i) = fvalue ?ctl"
    if "initializeAutoSave st forms = Inr forms'"
    using restore_field_Inr(3) [OF initializeAutoSave_nth [OF that assms]] .
  have b: "fvalue (inputs (forms' ! j) ! i) = v"
    if "initializeAutoSave st forms = Inr forms'" and "getItem st (autosave_key ?ctl) = Some v"
      and "fvalue ?ctl = []" and "value_setter (kind ?ctl) v = Inr v"
    using restored_after_write [OF that(2,3) initializeAutoSave_nth [OF that(1) assms]] that(4)
    by simp
  have c: "fvalue (inputs (state_after (initializeAutoSave st forms) ! j) ! i) = fvalue ?ctl"
    if "fvalue ?ctl \<noteq> []"
    using initializeAutoSave_keeps [OF assms(1,3) that] by simp
  from a b c show ?thesis
    unfolding k by blast
qed

theorem restore_on_load_witness:
  "(0::nat) < length [ex_form, ex_form_b] \<and> data_autosave ([ex_form, ex_form_b] ! 0)
   \<and> (0::nat) < length (inputs ([ex_form, ex_form_b] ! 0))
   \<and> initializeAutoSave ex_store [ex_form, ex_form_b] =
       Inr [ex_form\<lparr>inputs := [ex_email\<lparr>fvalue := ''a@b.c''\<rparr>, ex_unnamed\<lparr>fvalue := ''ghost''\<rparr>]\<rparr>,
            ex_form_b\<lparr>inputs := [hd (inputs ex_form_b), ex_email\<lparr>fvalue := ''a@b.c''\<rparr>]\<rparr>]
   \<and> getItem ex_store (''autosave_'' @ input_name (inputs ([ex_form, ex_form_b] ! 0) ! 0)) =
       Some ''a@b.c''
   \<and> fvalue (inputs ([ex_form, ex_form_b] ! 0) ! 0) = []
   \<and> value_setter (kind (inputs ([ex_form, ex_form_b] ! 0) ! 0)) ''a@b.c'' = Inr ''a@b.c''
   \<and> fvalue (inputs ([ex_form, ex_form_b] ! 1) ! 0) \<noteq> []
   \<and> fvalue (inputs (state_after (initializeAutoSave ex_store [ex_form, ex_form_b]) ! 1) ! 0) =
       ''555''"
  using restore_on_load [where forms = "[ex_form, ex_form_b]" and j = 0 and i = 0
      and st = ex_store and v = "''a@b.c''"]
    restore_on_load [where forms = "[ex_form, ex_form_b]" and j = 1 and i = 0 and st = ex_store]
  by (simp add: ex_store_def ex_form_def ex_form_b_def ex_email_def ex_unnamed_def getItem_def
      input_name_def initializeAutoSave_form_def restore_field_def autosave_key_def truthy_def
      set_value_def value_setter_def strip_newlines_def LF_def CR_def)

text \<open>
  Claim C2 (clear on submit). Whenever the submit event of an autosave form fires, the
  entry of every control of the form is gone from the store afterwards, whether or not
  the validation listener of the same form has blocked the submission.
\<close>

theorem clear_on_submit:
  assumes "data_autosave frm" and "inp \<in> set (inputs frm)"
  shows "getItem (snd (snd (dispatch_submit frm st))) (''autosave_'' @ input_name inp) = None
         \<and> (\<not> checkValidity frm \<longrightarrow> defaultPrevented (fst (snd (dispatch_submit frm st))))"
proof -
  have "autosave_key inp \<in> autosave_key ` set (inputs frm)"
    using assms(2) by (rule imageI)
  then have "getItem (autosave_submit_listener (inputs frm) st) (autosave_key inp) = None"
    by (simp add: getItem_autosave_submit_listener)
  then show ?thesis
    using assms(1)
    by (simp add: dispatch_submit_def validation_submit_listener_def new_event_def
        autosave_key_def split: prod.splits)
qed

theorem clear_on_submit_witness:
  "data_autosave ex_form \<and> ex_email \<in> set (inputs ex_form) \<and> \<not> checkValidity ex_form
   \<and> getItem ex_store ''autosave_email'' = Some ''a@b.c''
   \<and> getItem (snd (snd (dispatch_submit ex_form ex_store))) ''autosave_email'' = None
   \<and> defaultPrevented (fst (snd (dispatch_submit ex_form ex_store)))"
  using clear_on_submit [of ex_form ex_email ex_store]
  by (simp add: ex_form_def ex_email_def ex_unnamed_def ex_store_def getItem_def input_name_def
      checkValidity_def)




text \<open>
  Claim C6 as stated (a failed write is swallowed inside the change handler and autosave
  is a no-op from then on) fails: the handler ends with the exception, and a later,
  shorter value is written.
\<close>

theorem write_failure_counterexample:
  "autosave_input_listener ex_note ex_store = Inl (QuotaExceededError, ex_store)
   \<and> autosave_input_listener (ex_note\<lparr>fvalue := ''ok''\<rparr>) ex_store =
       Inr (ex_store\<lparr>items := items ex_store @ [(''autosave_note'', ''ok'')]\<rparr>)"
  by (simp add: ex_note_def ex_store_def autosave_input_listener_def setItem_def
      autosave_key_def input_name_def)

text \<open>
  Claim C6, amended. When the write of persist-on-change fails, the exception leaves the
  change handler, the store is unchanged, and the page-wide error listener shows one
  notification; the handler stays registered, and a later change whose write the store
  accepts is saved.
\<close>

theorem write_failure_propagates:
  assumes "quota st < store_size (AList.update (autosave_key inp) (fvalue inp) (items st))"
  shows "autosave_input_listener inp st = Inl (QuotaExceededError, st)
     \<and> dispatch_input inp (st, ns) = (st, window_error_listener ns)
     \<and> (store_size (AList.update (autosave_key inp) v (items st)) \<le> quota st \<longrightarrow>
          getItem (fst (dispatch_input (inp\<lparr>fvalue := v\<rparr>) (st, window_error_listener ns)))
            (autosave_key inp) = Some v)"
proof -
  have a: "autosave_input_listener inp st = Inl (QuotaExceededError, st)"
    using assms by (simp add: autosave_input_listener_def setItem_full)
  have k: "autosave_key (inp\<lparr>fvalue := v\<rparr>) = autosave_key inp"
    by (simp add: autosave_key_def input_name_def)
  have "getItem (fst (dispatch_input (inp\<lparr>fvalue := v\<rparr>) (st, ns'))) (autosave_key inp) = Some v"
    if "store_size (AList.update (autosave_key inp) v (items st)) \<le> quota st" for ns'
    using setItem_fits [OF that]
    by (simp add: dispatch_input_def autosave_input_listener_def k getItem_def update_conv')
  with a show ?thesis
    by (simp add: dispatch_input_def)
qed

theorem write_failure_propagates_witness:
  "quota ex_store < store_size (AList.update (autosave_key ex_note) (fvalue ex_note) (items ex_store))
   \<and> autosave_input_listener ex_note ex_store = Inl (QuotaExceededError, ex_store)
   \<and> dispatch_input ex_note (ex_store, []) =
       (ex_store, [(''An unexpected error occurred. Please refresh the page and try again.'', ''danger'')])
   \<and> getItem (fst (dispatch_input (ex_note\<lparr>fvalue := ''ok''\<rparr>) (ex_store, window_error_listener [])))
        ''autosave_note'' = Some ''ok''"
  using write_failure_propagates [where st = ex_store and inp = ex_note and v = "''ok''" and ns = "[]"]
  by (simp add: ex_note_def ex_store_def autosave_key_def input_name_def
      window_error_listener_def showNotification_def getItem_def)

text \<open>
  Claim C7 as stated (a written value is restored on reload whenever the control is then
  empty) fails twice. A note too long for what is left of the quota is not stored, so the
  reload leaves the empty control empty. And the value a file input reports for a chosen
  file is stored, but on reload the assignment throws and the control stays empty.
\<close>

theorem persist_restore_round_trip_counterexample:
  "input_name ex_note \<noteq> [] \<and> fvalue ex_note \<noteq> []
   \<and> dispatch_input ex_note (ex_store, []) = (ex_store, window_error_listener [])
   \<and> input_name ex_empty_note = input_name ex_note \<and> fvalue ex_empty_note = []
   \<and> initializeAutoSave ex_store [autosave_form [ex_empty_note]] =
       Inr [autosave_form [ex_empty_note]]
   \<and> input_name ex_file \<noteq> [] \<and> fvalue ex_file = []
   \<and> autosave_input_listener (ex_file\<lparr>fvalue := fakepath\<rparr>) \<lparr>items = [], quota = 1000\<rparr> =
       Inr \<lparr>items = [(''autosave_scan'', fakepath)], quota = 1000\<rparr>
   \<and> initializeAutoSave \<lparr>items = [(''autosave_scan'', fakepath)], quota = 1000\<rparr>
        [autosave_form [ex_file]] =
       Inl (InvalidStateError, [autosave_form [ex_file]])"
  by (simp add: ex_note_def ex_empty_note_def ex_store_def ex_file_def autosave_form_def
      fakepath_def dispatch_input_def autosave_input_listener_def setItem_def getItem_def
      input_name_def autosave_key_def initializeAutoSave_form_def restore_field_def truthy_def
      set_value_def value_setter_def)

text \<open>
  Claim C7, amended. For a control with a non-empty name: once the store has accepted
  the write of a change of its content to \<open>v\<close>, a reload in which the control is empty and
  the load-time pass runs to its end assigns \<open>v\<close> to the control, which then holds what
  its value setter makes of \<open>v\<close>: exactly \<open>v\<close> for a control that stores assigned text
  as it is.
\<close>

theorem persist_restore_round_trip:
  assumes "input_name inp \<noteq> []"
    and "autosave_input_listener (inp\<lparr>fvalue := v\<rparr>) st = Inr st'"
    and "initializeAutoSave st' forms = Inr forms'"
    and "j < length forms" and "data_autosave (forms ! j)"
    and "i < length (inputs (forms ! j))"
    and "input_name (inputs (forms ! j) ! i) = input_name inp"
    and "fvalue (inputs (forms ! j) ! i) = []"
  shows "(v = [] \<longrightarrow> fvalue (inputs (forms' ! j) ! i) = [])
     \<and> (v \<noteq> [] \<longrightarrow>
          value_setter (kind (inputs (forms ! j) ! i)) v = Inr (fvalue (inputs (forms' ! j) ! i)))
     \<and> (value_setter (kind (inputs (forms ! j) ! i)) v = Inr v \<longrightarrow>
          fvalue (inputs (forms' ! j) ! i) = v)"
proof -
  have "getItem st' (autosave_key (inputs (forms ! j) ! i)) = Some v"
    using getItem_after_input [OF assms(2)] autosave_key_eq [OF assms(7)] by simp
  then show ?thesis
    using assms(8) initializeAutoSave_nth [OF assms(3-6)] by (rule restored_after_write)
qed

theorem persist_restore_round_trip_witness:
  "input_name ex_email \<noteq> []
   \<and> autosave_input_listener (ex_email\<lparr>fvalue := ''me@x.org''\<rparr>) ex_store =
       Inr (ex_store\<lparr>items := [(''autosave_email'', ''me@x.org''), (''autosave_'', ''ghost'')]\<rparr>)
   \<and> initializeAutoSave
        (ex_store\<lparr>items := [(''autosave_email'', ''me@x.org''), (''autosave_'', ''ghost'')]\<rparr>)
        [ex_form] =
       Inr [ex_form\<lparr>inputs := [ex_email\<lparr>fvalue := ''me@x.org''\<rparr>,
                                 ex_unnamed\<lparr>fvalue := ''ghost''\<rparr>]\<rparr>]
   \<and> fvalue (inputs ([ex_form] ! 0) ! 0) = []
   \<and> value_setter (kind (inputs ([ex_form] ! 0) ! 0)) ''me@x.org'' = Inr ''me@x.org''
   \<and> fvalue (inputs ([ex_form\<lparr>inputs := [ex_email\<lparr>fvalue := ''me@x.org''\<rparr>,
                                           ex_unnamed\<lparr>fvalue := ''ghost''\<rparr>]\<rparr>] ! 0) ! 0) =
       ''me@x.org''"
proof -
  let ?st' = "ex_store\<lparr>items := [(''autosave_email'', ''me@x.org''), (''autosave_'', ''ghost'')]\<rparr>"
  let ?forms' = "[ex_form\<lparr>inputs := [ex_email\<lparr>fvalue := ''me@x.org''\<rparr>,
                                      ex_unnamed\<lparr>fvalue := ''ghost''\<rparr>]\<rparr>]"
  have n: "input_name ex_email \<noteq> []"
    by (simp add: ex_email_def input_name_def)
  have w: "autosave_input_listener (ex_email\<lparr>fvalue := ''me@x.org''\<rparr>) ex_store = Inr ?st'"
    by (simp add: autosave_input_listener_def setItem_def ex_email_def ex_store_def
        autosave_key_def input_name_def)
  have r: "initializeAutoSave ?st' [ex_form] = Inr ?forms'"
    by (simp add: ex_store_def ex_form_def ex_email_def ex_unnamed_def getItem_def
        input_name_def initializeAutoSave_form_def restore_field_def autosave_key_def truthy_def
        set_value_def value_setter_def strip_newlines_def LF_def CR_def)
  have e: "fvalue (inputs ([ex_form] ! 0) ! 0) = []"
    by (simp add: ex_form_def ex_email_def)
  have s: "value_setter (kind (inputs ([ex_form] ! 0) ! 0)) ''me@x.org'' = Inr ''me@x.org''"
    by (simp add: ex_form_def ex_email_def value_setter_def strip_newlines_def LF_def CR_def)
  have "fvalue (inputs (?forms' ! 0) ! 0) = ''me@x.org''"
    using persist_restore_round_trip [OF n w r _ _ _ _ e] s
    by (simp add: ex_form_def ex_email_def)
  with n w r e s show ?thesis by simp
qed

text \<open>
  Claim C8 as stated (a value written in one form's control populates the other form's
  empty control of the same name on reload) fails twice. A note too long for what is left
  of the quota is not stored, so the other form's note stays empty. And a colour written
  in one form's text input is stored, but the other form's select of the same name has no
  option with that value and stays empty.
\<close>

theorem key_collision_counterexample:
  "input_name ex_note = input_name ex_empty_note \<and> fvalue ex_note \<noteq> []
   \<and> dispatch_input ex_note (ex_store, []) = (ex_store, window_error_listener [])
   \<and> initializeAutoSave ex_store [autosave_form [ex_empty_note], autosave_form [ex_empty_note]] =
       Inr [autosave_form [ex_empty_note], autosave_form [ex_empty_note]]
   \<and> input_name ex_colour = input_name ex_select \<and> fvalue ex_select = []
   \<and> autosave_input_listener (ex_colour\<lparr>fvalue := ''teal''\<rparr>) \<lparr>items = [], quota = 1000\<rparr> =
       Inr \<lparr>items = [(''autosave_colour'', ''teal'')], quota = 1000\<rparr>
   \<and> initializeAutoSave \<lparr>items = [(''autosave_colour'', ''teal'')], quota = 1000\<rparr>
        [autosave_form [ex_colour], autosave_form [ex_select]] =
       Inr [autosave_form [ex_colour\<lparr>fvalue := ''teal''\<rparr>], autosave_form [ex_select]]"
  by (simp add: ex_note_def ex_empty_note_def ex_store_def ex_colour_def ex_select_def
      autosave_form_def dispatch_input_def autosave_input_listener_def setItem_def getItem_def
      input_name_def autosave_key_def initializeAutoSave_form_def restore_field_def truthy_def
      set_value_def value_setter_def strip_newlines_def LF_def CR_def)

text \<open>
  Claim C8, amended. Two controls of the same name in two autosave forms of one page have
  the same key. Once the store has accepted the write of a change of the first form's
  control to \<open>v\<close>, a reload in which the second form's control is empty and the load-time
  pass runs to its end assigns \<open>v\<close> to that control, which then holds what its value
  setter makes of \<open>v\<close>: exactly \<open>v\<close> for a control that stores assigned text as it is.
\<close>

theorem key_collision_across_forms:
  assumes "ja < length forms" and "jb < length forms" and "ja \<noteq> jb"
    and "data_autosave (forms ! ja)" and "data_autosave (forms ! jb)"
    and "ia < length (inputs (forms ! ja))" and "ib < length (inputs (forms ! jb))"
    and "input_name (inputs (forms ! ja) ! ia) = input_name (inputs (forms ! jb) ! ib)"
    and "autosave_input_listener ((inputs (forms ! ja) ! ia)\<lparr>fvalue := v\<rparr>) st = Inr st'"
    and "initializeAutoSave st' forms = Inr forms'"
    and "fvalue (inputs (forms ! jb) ! ib) = []"
  shows "autosave_key (inputs (forms ! ja) ! ia) = autosave_key (inputs (forms ! jb) ! ib)
     \<and> (v = [] \<longrightarrow> fvalue (inputs (forms' ! jb) ! ib) = [])
     \<and> (v \<noteq> [] \<longrightarrow>
          value_setter (kind (inputs (forms ! jb) ! ib)) v =
            Inr (fvalue (inputs (forms' ! jb) ! ib)))
     \<and> (value_setter (kind (inputs (forms ! jb) ! ib)) v = Inr v \<longrightarrow>
          fvalue (inputs (forms' ! jb) ! ib) = v)"
proof -
  have k: "autosave_key (inputs (forms ! ja) ! ia) = autosave_key (inputs (forms ! jb) ! ib)"
    using assms(8) by (rule autosave_key_eq)
  have "getItem st' (autosave_key (inputs (forms ! jb) ! ib)) = Some v"
    using getItem_after_input [OF assms(9)] k by simp
  then have "(v = [] \<longrightarrow> fvalue (inputs (forms' ! jb) ! ib) = [])
     \<and> (v \<noteq> [] \<longrightarrow>
          value_setter (kind (inputs (forms ! jb) ! ib)) v =
            Inr (fvalue (inputs (forms' ! jb) ! ib)))
     \<and> (value_setter (kind (inputs (forms ! jb) ! ib)) v = Inr v \<longrightarrow>
          fvalue (inputs (forms' ! jb) ! ib) = v)"
    using assms(11) initializeAutoSave_nth [OF assms(10,2,5,7)] by (rule restored_after_write)
  with k show ?thesis by simp
qed

theorem key_collision_across_forms_witness:
  "autosave_input_listener ((inputs ([ex_form, ex_form_b] ! 0) ! 0)\<lparr>fvalue := ''me@x.org''\<rparr>) ex_store =
       Inr (ex_store\<lparr>items := [(''autosave_email'', ''me@x.org''), (''autosave_'', ''ghost'')]\<rparr>)
   \<and> initializeAutoSave
        (ex_store\<lparr>items := [(''autosave_email'', ''me@x.org''), (''autosave_'', ''ghost'')]\<rparr>)
        [ex_form, ex_form_b] =
       Inr [ex_form\<lparr>inputs := [ex_email\<lparr>fvalue := ''me@x.org''\<rparr>,
                                 ex_unnamed\<lparr>fvalue := ''ghost''\<rparr>]\<rparr>,
            ex_form_b\<lparr>inputs := [hd (inputs ex_form_b), ex_email\<lparr>fvalue := ''me@x.org''\<rparr>]\<rparr>]
   \<and> fvalue (inputs ([ex_form, ex_form_b] ! 1) ! 1) = []
   \<and> value_setter (kind (inputs ([ex_form, ex_form_b] ! 1) ! 1)) ''me@x.org'' = Inr ''me@x.org''
   \<and> fvalue (inputs ([ex_form\<lparr>inputs := [ex_email\<lparr>fvalue := ''me@x.org''\<rparr>,
                                           ex_unnamed\<lparr>fvalue := ''ghost''\<rparr>]\<rparr>,
            ex_form_b\<lparr>inputs := [hd (inputs ex_form_b), ex_email\<lparr>fvalue := ''me@x.org''\<rparr>]\<rparr>] ! 1) ! 1) =
       ''me@x.org''"
proof -
  let ?st' = "ex_store\<lparr>items := [(''autosave_email'', ''me@x.org''), (''autosave_'', ''ghost'')]\<rparr>"
  let ?forms' = "[ex_form\<lparr>inputs := [ex_email\<lparr>fvalue := ''me@x.org''\<rparr>,
                                      ex_unnamed\<lparr>fvalue := ''ghost''\<rparr>]\<rparr>,
            ex_form_b\<lparr>inputs := [hd (inputs ex_form_b), ex_email\<lparr>fvalue := ''me@x.org''\<rparr>]\<rparr>]"
  have w: "autosave_input_listener ((inputs ([ex_form, ex_form_b] ! 0) ! 0)\<lparr>fvalue := ''me@x.org''\<rparr>)
             ex_store = Inr ?st'"
    by (simp add: autosave_input_listener_def setItem_def ex_email_def ex_store_def
        autosave_key_def input_name_def ex_form_def)
  have r: "initializeAutoSave ?st' [ex_form, ex_form_b] = Inr ?forms'"
    by (simp add: ex_store_def ex_form_def ex_form_b_def ex_email_def ex_unnamed_def getItem_def
        input_name_def initializeAutoSave_form_def restore_field_def autosave_key_def truthy_def
        set_value_def value_setter_def strip_newlines_def LF_def CR_def)
  have e: "fvalue (inputs ([ex_form, ex_form_b] ! 1) ! 1) = []"
    by (simp add: ex_form_b_def ex_email_def)
  have s: "value_setter (kind (inputs ([ex_form, ex_form_b] ! 1) ! 1)) ''me@x.org'' =
             Inr ''me@x.org''"
    by (simp add: ex_form_b_def ex_email_def value_setter_def strip_newlines_def LF_def CR_def)
  have "fvalue (inputs (?forms' ! 1) ! 1) = ''me@x.org''"
    using key_collision_across_forms [where forms = "[ex_form, ex_form_b]" and ja = 0 and jb = 1
        and ia = 0 and ib = 1, OF _ _ _ _ _ _ _ _ w r e] s
    by (simp add: ex_form_def ex_form_b_def ex_email_def input_name_def)
  with w r e s show ?thesis by simp
qed

section \<open>Properties of strings\<close>

lemma startsWith_iff: "startsWith s t \<longleftrightarrow> (\<exists>ss. s = t @ ss)"
  by (induction s t rule: startsWith.induct) auto

lemma includes_str_iff: "includes_str s t \<longleftrightarrow> (\<exists>ps ss. s = ps @ t @ ss)"
proof (induction s)
  case Nil
  then show ?case by simp
next
  case (Cons c s)
  have "(\<exists>ps ss. c # s = ps @ t @ ss) \<longleftrightarrow>
        (\<exists>ss. c # s = t @ ss) \<or> (\<exists>ps ss. s = ps @ t @ ss)"
  proof
    assume "\<exists>ps ss. c # s = ps @ t @ ss"
    then obtain ps ss where e: "c # s = ps @ t @ ss" by blast
    show "(\<exists>ss. c # s = t @ ss) \<or> (\<exists>ps ss. s = ps @ t @ ss)"
    proof (cases ps)
      case Nil
      with e show ?thesis by auto
    next
      case (Cons p ps')
      with e have "s = ps' @ t @ ss" by simp
      then show ?thesis by blast
    qed
  next
    assume "(\<exists>ss. c # s = t @ ss) \<or> (\<exists>ps ss. s = ps @ t @ ss)"
    then show "\<exists>ps ss. c # s = ps @ t @ ss"
    proof
      assume "\<exists>ss. c # s = t @ ss"
      then obtain ss where "c # s = [] @ t @ ss" by auto
      then show ?thesis by blast
    next
      assume "\<exists>ps ss. s = ps @ t @ ss"
      then obtain ps ss where "c # s = (c # ps) @ t @ ss" by auto
      then show ?thesis by blast
    qed
  qed
  with Cons show ?case by (simp add: startsWith_iff)
qed

lemma includes_str_char: "includes_str s [c] \<longleftrightarrow> c \<in> set s"
  by (induction s) auto

lemma trimStart_Nil_iff: "trimStart s = [] \<longleftrightarrow> list_all isWhiteSpace s"
  by (simp add: trimStart_def dropWhile_eq_Nil_conv list_all_iff)

lemma trim_Nil_iff: "trim s = [] \<longleftrightarrow> list_all isWhiteSpace s"
proof
  assume "trim s = []"
  then have "trimStart (rev (trimStart s)) = []" by (simp add: trim_def)
  then have a: "list_all isWhiteSpace (trimStart s)"
    by (simp add: trimStart_Nil_iff list_all_iff)
  show "list_all isWhiteSpace s"
  proof (rule ccontr)
    assume "\<not> list_all isWhiteSpace s"
    then have "trimStart s \<noteq> []" by (simp add: trimStart_Nil_iff)
    then have "\<not> isWhiteSpace (hd (trimStart s))"
      unfolding trimStart_def by (rule hd_dropWhile)
    moreover have "hd (trimStart s) \<in> set (trimStart s)"
      using \<open>trimStart s \<noteq> []\<close> by simp
    ultimately show False using a by (simp add: list_all_iff)
  qed
next
  assume "list_all isWhiteSpace s"
  then have "trimStart s = []" by (simp add: trimStart_Nil_iff)
  then have "trim s = rev (trimStart (rev []))" by (simp only: trim_def)
  also have "\<dots> = []" by (simp add: trimStart_def)
  finally show "trim s = []" .
qed

lemma isWhiteSpace_toLowerCase_char: "isWhiteSpace (toLowerCase_char c) = isWhiteSpace c"
proof (cases "isUpper c")
  case False
  then show ?thesis by (simp add: toLowerCase_char_def)
next
  case True
  then have r: "(65 \<le> (of_char c :: nat) \<and> (of_char c :: nat) \<le> 90) \<or>
                (192 \<le> (of_char c :: nat) \<and> (of_char c :: nat) \<le> 222)"
    by (auto simp: isUpper_def Let_def)
  then have "((of_char c :: nat) + 32) mod 256 = of_char c + 32" by auto
  then have "(of_char (char_of ((of_char c :: nat) + 32)) :: nat) = of_char c + 32"
    by (simp add: of_char_of)
  with r True show ?thesis
    by (auto simp: toLowerCase_char_def isWhiteSpace_def Let_def)
qed

lemma trim_toLowerCase_Nil_iff: "trim (toLowerCase s) = [] \<longleftrightarrow> trim s = []"
  by (simp add: trim_Nil_iff toLowerCase_def list_all_iff isWhiteSpace_toLowerCase_char)

section \<open>Properties of the search filter\<close>

lemma filter_element_text [simp]: "textContent (filter_element q el) = textContent el"
  by (simp add: filter_element_def Let_def)

lemma filter_element_visible:
  "display (filter_element q el) \<noteq> ''none'' \<longleftrightarrow>
     q = [] \<or> (\<exists>ps ss. toLowerCase (textContent el) = ps @ q @ ss)"
  by (simp add: filter_element_def Let_def truthy_def includes_str_iff)

lemma performSearch_no_container:
  "searchable sv = None \<Longrightarrow> performSearch sv = Inl (TypeError, sv)"
  by (simp add: performSearch_def)

lemma performSearch_nothing_searchable:
  "searchable sv = Some [] \<Longrightarrow> performSearch sv = Inr sv"
  by (simp add: performSearch_def)

text \<open>
  Claim C3 (filter pass). For every search input and every searchable element of its
  container, after a filter pass the element is visible exactly when the trimmed,
  lower-cased search term is empty or occurs in the element's lower-cased text; the
  status line shows the number of visible elements out of the total, and is hidden when
  the term is empty.
\<close>

theorem filter_pass_correct:
  assumes "searchable sv = Some els" and "i < length els"
  shows "\<exists>sv' els' c.
           performSearch sv = Inr sv' \<and> input_value sv' = input_value sv \<and>
           searchable sv' = Some els' \<and> length els' = length els \<and>
           textContent (els' ! i) = textContent (els ! i) \<and>
           (display (els' ! i) \<noteq> ''none'' \<longleftrightarrow>
              trim (toLowerCase (input_value sv)) = [] \<or>
              (\<exists>ps ss. toLowerCase (textContent (els ! i)) =
                         ps @ trim (toLowerCase (input_value sv)) @ ss)) \<and>
           search_count sv' = Some c \<and>
           (if trim (toLowerCase (input_value sv)) = [] then count_display c = ''none''
            else count_display c = ''block'' \<and>
                 count_text c =
                   ''Showing '' @
                   string_of_nat (length (filter (\<lambda>el. display el \<noteq> ''none'') els')) @
                   '' of '' @ string_of_nat (length els) @ '' results'')"
proof -
  let ?q = "trim (toLowerCase (input_value sv))"
  let ?els' = "map (filter_element ?q) els"
  let ?n = "length (filter (\<lambda>el. display el \<noteq> ''none'') ?els')"
  let ?sv' = "updateSearchResultCount (sv\<lparr>searchable := Some ?els'\<rparr>) ?n (length ?els')"
  have ne: "length els \<noteq> 0" using assms(2) by auto
  have p: "performSearch sv = Inr ?sv'"
    using assms(1) ne by (simp add: performSearch_def Let_def)
  have s: "searchable ?sv' = Some ?els'" "input_value ?sv' = input_value sv"
    by (simp_all add: updateSearchResultCount_def Let_def)
  have e: "trim (input_value sv) = [] \<longleftrightarrow> ?q = []"
    by (simp add: trim_toLowerCase_Nil_iff)
  obtain c where c: "search_count ?sv' = Some c"
    and cc: "if ?q = [] then count_display c = ''none''
            else count_display c = ''block'' \<and>
                 count_text c = ''Showing '' @ string_of_nat ?n @ '' of '' @
                                string_of_nat (length els) @ '' results''"
    using e by (cases "?q = []") (simp_all add: updateSearchResultCount_def Let_def truthy_def)
  have v: "display (?els' ! i) \<noteq> ''none'' \<longleftrightarrow>
            ?q = [] \<or> (\<exists>ps ss. toLowerCase (textContent (els ! i)) = ps @ ?q @ ss)"
    using assms(2) by (simp add: filter_element_visible)
  have t: "textContent (?els' ! i) = textContent (els ! i)"
    using assms(2) by simp
  show ?thesis
    apply (rule exI [of _ ?sv'], rule exI [of _ ?els'], rule exI [of _ c])
    using p s c cc v t by simp
qed

theorem filter_pass_correct_witness:
  "searchable (ex_view\<lparr>input_value := '' aB ''\<rparr>) =
     Some [\<lparr>textContent = ''Cab'', display = []\<rparr>, \<lparr>textContent = ''xyz'', display = []\<rparr>]
   \<and> (1::nat) < length [\<lparr>textContent = ''Cab'', display = []\<rparr>, \<lparr>textContent = ''xyz'', display = []\<rparr>]
   \<and> performSearch (ex_view\<lparr>input_value := '' aB ''\<rparr>) =
       Inr \<lparr>input_value = '' aB '',
            searchable = Some [\<lparr>textContent = ''Cab'', display = []\<rparr>,
                               \<lparr>textContent = ''xyz'', display = ''none''\<rparr>],
            search_count = Some \<lparr>className = ''search-count text-muted mt-1 d-block'',
                                 count_text = ''Showing 1 of 2 results'',
                                 count_display = ''block''\<rparr>\<rparr>
   \<and> (\<exists>sv' els' c.
         performSearch (ex_view\<lparr>input_value := '' aB ''\<rparr>) = Inr sv' \<and>
         searchable sv' = Some els' \<and> display (els' ! 1) = ''none'' \<and>
         search_count sv' = Some c \<and> count_display c = ''block'')"
proof -
  let ?els = "[\<lparr>textContent = ''Cab'', display = []\<rparr>, \<lparr>textContent = ''xyz'', display = []\<rparr>]"
  let ?sv = "ex_view\<lparr>input_value := '' aB ''\<rparr>"
  have h1: "searchable ?sv = Some ?els" by (simp add: ex_view_def)
  have h2: "(1::nat) < length ?els" by simp
  have q: "trim (toLowerCase (input_value ?sv)) = ''ab''"
    by code_simp
  have n: "\<not> (\<exists>ps ss. toLowerCase (textContent (?els ! 1)) = ps @ ''ab'' @ ss)"
    unfolding includes_str_iff [symmetric] by code_simp
  have p: "performSearch ?sv =
       Inr \<lparr>input_value = '' aB '',
            searchable = Some [\<lparr>textContent = ''Cab'', display = []\<rparr>,
                               \<lparr>textContent = ''xyz'', display = ''none''\<rparr>],
            search_count = Some \<lparr>className = ''search-count text-muted mt-1 d-block'',
                                 count_text = ''Showing 1 of 2 results'',
                                 count_display = ''block''\<rparr>\<rparr>"
    by code_simp
  from filter_pass_correct [OF h1 h2] obtain sv' els' c where
    "performSearch ?sv = Inr sv'" "searchable sv' = Some els'"
    "display (els' ! 1) \<noteq> ''none'' \<longleftrightarrow>
       trim (toLowerCase (input_value ?sv)) = [] \<or>
       (\<exists>ps ss. toLowerCase (textContent (?els ! 1)) = ps @ trim (toLowerCase (input_value ?sv)) @ ss)"
    "search_count sv' = Some c"
    "if trim (toLowerCase (input_value ?sv)) = [] then count_display c = ''none''
     else count_display c = ''block'' \<and>
          count_text c = ''Showing '' @
            string_of_nat (length (filter (\<lambda>el. display el \<noteq> ''none'') els')) @
            '' of '' @ string_of_nat (length ?els) @ '' results''"
    by blast
  with q n have "\<exists>sv' els' c.
         performSearch ?sv = Inr sv' \<and>
         searchable sv' = Some els' \<and> display (els' ! 1) = ''none'' \<and>
         search_count sv' = Some c \<and> count_display c = ''block''"
    by auto
  with h1 h2 p show ?thesis by blast
qed

section \<open>Properties of the debounce timer\<close>

lemma debounce_inv_cases:
  assumes "debounce_inv s"
  obtains "timers s = []"
  | h d where "timers s = [(h, d)]" "searchTimeout s = Some h" "clock s < d" "d \<le> clock s + 300"
proof (cases "timers s")
  case Nil
  then show ?thesis by (rule that(1))
next
  case (Cons p ps)
  obtain h d where p: "p = (h, d)" by (cases p)
  from assms Cons p have "ps = []"
    by (cases ps) (simp_all add: debounce_inv_def)
  with assms Cons p show ?thesis
    by (intro that(2) [of h d]) (simp_all add: debounce_inv_def)
qed

lemma just_scheduledD:
  assumes "just_scheduled s"
  obtains h where "timers s = [(h, clock s + 300)]" "searchTimeout s = Some h"
proof (cases "timers s")
  case Nil
  with assms show ?thesis by (simp add: just_scheduled_def)
next
  case (Cons p ps)
  obtain h d where p: "p = (h, d)" by (cases p)
  from assms Cons p have "ps = []"
    by (cases ps) (simp_all add: just_scheduled_def)
  with assms Cons p show ?thesis
    by (intro that [of h]) (simp_all add: just_scheduled_def)
qed

lemma just_scheduled_inv: "just_scheduled s \<Longrightarrow> debounce_inv s"
  by (erule just_scheduledD) (simp add: debounce_inv_def)

lemma debounce_inv_initializeSearch: "debounce_inv (initializeSearch sv)"
  by (simp add: debounce_inv_def initializeSearch_def)

lemma clearTimeout_inv:
  "debounce_inv s \<Longrightarrow> clearTimeout (searchTimeout s) (timers s) = []"
  by (erule debounce_inv_cases) (auto simp: clearTimeout_def split: option.splits)

lemma content_change_just_scheduled:
  assumes "debounce_inv s"
  shows "just_scheduled (content_change v s)"
  using clearTimeout_inv [OF assms]
  by (simp add: content_change_def search_input_listener_def Let_def just_scheduled_def)

lemma content_change_passes [simp]: "passes (content_change v s) = passes s"
  by (simp add: content_change_def search_input_listener_def Let_def)

lemma content_change_value [simp]: "input_value (view (content_change v s)) = v"
  by (simp add: content_change_def search_input_listener_def Let_def)

lemma content_change_view: "view (content_change v s) = (view s)\<lparr>input_value := v\<rparr>"
  by (simp add: content_change_def search_input_listener_def Let_def)

lemma elapse_idle:
  "timers s = [] \<Longrightarrow> elapse dt s = s\<lparr>clock := clock s + dt\<rparr>"
  by (simp add: elapse_def)

lemma elapse_early:
  "timers s = [(h, d)] \<Longrightarrow> clock s + dt < d \<Longrightarrow> elapse dt s = s\<lparr>clock := clock s + dt\<rparr>"
  by (simp add: elapse_def)

lemma elapse_due:
  "timers s = [(h, d)] \<Longrightarrow> d \<le> clock s + dt \<Longrightarrow>
   elapse dt s = fire_timer (s\<lparr>clock := clock s + dt, timers := []\<rparr>)"
  by (simp add: elapse_def)

lemma elapse_inv:
  assumes "debounce_inv s"
  shows "debounce_inv (elapse dt s)"
  using assms
proof (cases rule: debounce_inv_cases)
  case 1
  then show ?thesis by (simp add: elapse_idle debounce_inv_def)
next
  case (2 h d)
  show ?thesis
  proof (cases "d \<le> clock s + dt")
    case True
    with 2 show ?thesis by (simp add: elapse_due debounce_inv_def fire_timer_def)
  next
    case False
    with 2 show ?thesis by (simp add: elapse_early debounce_inv_def)
  qed
qed

lemma debounce_inv_clearBtn [simp]: "debounce_inv (s\<lparr>clearBtn := b\<rparr>) = debounce_inv s"
  by (simp add: debounce_inv_def split: list.splits)

lemma clear_click_inv: "debounce_inv s \<Longrightarrow> debounce_inv (clear_click s)"
  by (simp add: clear_click_def content_change_just_scheduled just_scheduled_inv)

lemma step_inv: "debounce_inv s \<Longrightarrow> debounce_inv (step a s)"
  by (cases a)
    (simp_all add: elapse_inv content_change_just_scheduled just_scheduled_inv clear_click_inv)

lemma run_inv: "debounce_inv s \<Longrightarrow> debounce_inv (run acts s)"
  by (induction acts arbitrary: s) (simp_all add: step_inv)

lemma debounce_inv_timers: "debounce_inv s \<Longrightarrow> length (timers s) \<le> 1"
  by (erule debounce_inv_cases) simp_all

lemma gap_then_change:
  assumes "just_scheduled s" and "gap < 300"
  shows "just_scheduled (content_change v (elapse gap s))"
    and "passes (content_change v (elapse gap s)) = passes s"
    and "view (content_change v (elapse gap s)) = (view s)\<lparr>input_value := v\<rparr>"
proof -
  from assms(1) obtain h where t: "timers s = [(h, clock s + 300)]"
    by (rule just_scheduledD)
  have e: "elapse gap s = s\<lparr>clock := clock s + gap\<rparr>"
    using t assms(2) by (simp add: elapse_early)
  have "debounce_inv (elapse gap s)"
    using assms(1) by (simp add: just_scheduled_inv elapse_inv)
  then show "just_scheduled (content_change v (elapse gap s))"
    by (rule content_change_just_scheduled)
  show "passes (content_change v (elapse gap s)) = passes s"
    by (simp add: e)
  show "view (content_change v (elapse gap s)) = (view s)\<lparr>input_value := v\<rparr>"
    by (simp add: e content_change_view)
qed

lemma burst_quiet:
  assumes "just_scheduled s" and "list_all (\<lambda>(gap, v). gap < 300) es"
  shows "just_scheduled (burst es s) \<and> passes (burst es s) = passes s \<and>
         view (burst es s) =
           (view s)\<lparr>input_value := last (input_value (view s) # map snd es)\<rparr>"
  using assms
proof (induction es arbitrary: s)
  case Nil
  then show ?case by simp
next
  case (Cons e es)
  obtain gap v where e: "e = (gap, v)" by (cases e)
  with Cons.prems have g: "gap < 300" and r: "list_all (\<lambda>(gap, v). gap < 300) es"
    by simp_all
  let ?s = "content_change v (elapse gap s)"
  have j: "just_scheduled ?s" and p: "passes ?s = passes s"
    and w: "view ?s = (view s)\<lparr>input_value := v\<rparr>"
    using gap_then_change [OF Cons.prems(1) g] by simp_all
  from Cons.IH [OF j r] p w e show ?case by simp
qed

lemma quiet_period_fires:
  assumes "just_scheduled s" and "300 \<le> d"
  shows "passes (elapse d s) = passes s @ [input_value (view s)]"
    and "timers (elapse d s) = []"
    and "view (elapse d s) = state_after (performSearch (view s))"
proof -
  from assms(1) obtain h where t: "timers s = [(h, clock s + 300)]"
    by (rule just_scheduledD)
  have e: "elapse d s = fire_timer (s\<lparr>clock := clock s + d, timers := []\<rparr>)"
    using t assms(2) by (simp add: elapse_due)
  show "passes (elapse d s) = passes s @ [input_value (view s)]"
    by (simp add: e fire_timer_def)
  show "timers (elapse d s) = []"
    by (simp add: e fire_timer_def)
  show "view (elapse d s) = state_after (performSearch (view s))"
    by (simp add: e fire_timer_def)
qed

text \<open>
  Claim C4 (debounce). In every state the input can reach, at most one timer is pending.
  A burst of content changes, each less than 300 ms after the one before, runs no filter
  pass while it lasts: the trace does not grow and the page is as it was, but for the
  text of the input. The quiet period after it runs exactly one pass: the trace grows by
  the text of the last change, and the page is what \<^verbatim>\<open>performSearch\<close> makes of it
  with that text in the input.
\<close>

theorem debounce_single_pass:
  assumes "s = run acts (initializeSearch sv)"
    and "list_all (\<lambda>(gap, v). gap < 300) es"
    and "300 \<le> d"
  shows "length (timers s) \<le> 1
     \<and> passes (burst es (content_change v0 s)) = passes s
     \<and> view (burst es (content_change v0 s)) =
         (view s)\<lparr>input_value := last (v0 # map snd es)\<rparr>
     \<and> passes (elapse d (burst es (content_change v0 s))) =
         passes s @ [last (v0 # map snd es)]
     \<and> view (elapse d (burst es (content_change v0 s))) =
         state_after (performSearch ((view s)\<lparr>input_value := last (v0 # map snd es)\<rparr>))
     \<and> timers (elapse d (burst es (content_change v0 s))) = []"
proof -
  have i: "debounce_inv s"
    using assms(1) by (simp add: run_inv debounce_inv_initializeSearch)
  have j: "just_scheduled (content_change v0 s)"
    using i by (rule content_change_just_scheduled)
  from burst_quiet [OF j assms(2)]
  have b: "just_scheduled (burst es (content_change v0 s))"
    and p: "passes (burst es (content_change v0 s)) = passes s"
    and v: "view (burst es (content_change v0 s)) =
              (view s)\<lparr>input_value := last (v0 # map snd es)\<rparr>"
    by (simp_all add: content_change_view)
  from quiet_period_fires [OF b assms(3)] p v debounce_inv_timers [OF i]
  show ?thesis by simp
qed

theorem debounce_single_pass_witness:
  "list_all (\<lambda>(gap, v). gap < 300) [(100::nat, ''a''), (299, ''ab'')] \<and> (300::nat) \<le> 300
   \<and> length (timers (run [Change ''x'', Elapse 50, ClearClick] (initializeSearch ex_view))) \<le> 1
   \<and> passes (elapse 300 (burst [(100::nat, ''a''), (299, ''ab'')]
        (content_change ''abc'' (run [Change ''x'', Elapse 50, ClearClick] (initializeSearch ex_view))))) =
      [''ab'']
   \<and> view (elapse 300 (burst [(100::nat, ''a''), (299, ''ab'')]
        (content_change ''abc'' (run [Change ''x'', Elapse 50, ClearClick] (initializeSearch ex_view))))) =
      \<lparr>input_value = ''ab'',
       searchable = Some [\<lparr>textContent = ''Cab'', display = []\<rparr>,
                          \<lparr>textContent = ''xyz'', display = ''none''\<rparr>],
       search_count = Some \<lparr>className = ''search-count text-muted mt-1 d-block'',
                            count_text = ''Showing 1 of 2 results'',
                            count_display = ''block''\<rparr>\<rparr>"
proof -
  have p: "state_after (performSearch
             \<lparr>input_value = ''ab'',
              searchable = Some [\<lparr>textContent = ''Cab'', display = []\<rparr>,
                                 \<lparr>textContent = ''xyz'', display = []\<rparr>],
              search_count = None\<rparr>) =
      \<lparr>input_value = ''ab'',
       searchable = Some [\<lparr>textContent = ''Cab'', display = []\<rparr>,
                          \<lparr>textContent = ''xyz'', display = ''none''\<rparr>],
       search_count = Some \<lparr>className = ''search-count text-muted mt-1 d-block'',
                            count_text = ''Showing 1 of 2 results'',
                            count_display = ''block''\<rparr>\<rparr>"
    by code_simp
  have r: "view (run [Change ''x'', Elapse 50, ClearClick] (initializeSearch ex_view)) =
             \<lparr>input_value = ''x'',
              searchable = Some [\<lparr>textContent = ''Cab'', display = []\<rparr>,
                                 \<lparr>textContent = ''xyz'', display = []\<rparr>],
              search_count = None\<rparr>"
    and q: "passes (run [Change ''x'', Elapse 50, ClearClick] (initializeSearch ex_view)) = []"
    by (simp_all add: initializeSearch_def content_change_def search_input_listener_def
        clearTimeout_def elapse_def fire_timer_def clear_click_def truthy_def ex_view_def Let_def)
  have g: "list_all (\<lambda>(gap, v). gap < 300) [(100::nat, ''a''), (299, ''ab'')]"
    by simp
  have l: "last (''abc'' # map snd [(100::nat, ''a''), (299, ''ab'')]) = ''ab''"
    by simp
  have u: "(view (run [Change ''x'', Elapse 50, ClearClick] (initializeSearch ex_view)))
             \<lparr>input_value := ''ab''\<rparr> =
           \<lparr>input_value = ''ab'',
            searchable = Some [\<lparr>textContent = ''Cab'', display = []\<rparr>,
                               \<lparr>textContent = ''xyz'', display = []\<rparr>],
            search_count = None\<rparr>"
    unfolding r by simp
  note t = debounce_single_pass [where acts = "[Change ''x'', Elapse 50, ClearClick]"
      and sv = ex_view and es = "[(100, ''a''), (299, ''ab'')]" and d = 300
      and ?v0.0 = "''abc''", OF refl g order_refl, unfolded l u q p]
  from t have "length (timers (run [Change ''x'', Elapse 50, ClearClick] (initializeSearch ex_view))) \<le> 1"
    by (rule conjunct1)
  moreover from t have "passes (elapse 300 (burst [(100::nat, ''a''), (299, ''ab'')]
        (content_change ''abc'' (run [Change ''x'', Elapse 50, ClearClick] (initializeSearch ex_view))))) =
      [] @ [''ab'']"
    by blast
  moreover from t have "view (elapse 300 (burst [(100::nat, ''a''), (299, ''ab'')]
        (content_change ''abc'' (run [Change ''x'', Elapse 50, ClearClick] (initializeSearch ex_view))))) =
      \<lparr>input_value = ''ab'',
       searchable = Some [\<lparr>textContent = ''Cab'', display = []\<rparr>,
                          \<lparr>textContent = ''xyz'', display = ''none''\<rparr>],
       search_count = Some \<lparr>className = ''search-count text-muted mt-1 d-block'',
                            count_text = ''Showing 1 of 2 results'',
                            count_display = ''block''\<rparr>\<rparr>"
    by blast
  ultimately show ?thesis
    using g by (simp del: run.simps burst.simps)
qed

section \<open>Properties of the CSV export\<close>

lemma chars_distinct [simp]:
  "comma \<noteq> dquote" "dquote \<noteq> comma" "comma \<noteq> LF" "comma \<noteq> CR" "dquote \<noteq> LF" "dquote \<noteq> CR"
  by (simp_all add: comma_def dquote_def LF_def CR_def)

lemma csv_cell_eq:
  "csv_cell cell =
     (if comma \<in> set (trim cell) \<or> dquote \<in> set (trim cell)
      then [dquote] @ replace_quotes (trim cell) @ [dquote] else trim cell)"
  by (simp add: csv_cell_def Let_def includes_str_char)

lemma join_Cons: "join sep (x # xs) = (if xs = [] then x else x @ sep @ join sep xs)"
  by (cases xs) simp_all

lemma read_plain_run:
  assumes "comma \<notin> set t" and "LF \<notin> set t" and "CR \<notin> set t"
  shows "read_plain acc (t @ rest) = read_plain (rev t @ acc) rest"
  using assms by (induction t arbitrary: acc) auto

lemma read_field_plain:
  assumes "comma \<notin> set t" and "dquote \<notin> set t" and "LF \<notin> set t" and "CR \<notin> set t"
  shows "read_field (t @ comma # rest) = t # read_field rest"
    and "read_field t = [t]"
proof -
  have p: "read_field (t @ r) = read_plain [] (t @ r)" if "r = [] \<or> hd r = comma" for r
  proof (cases t)
    case Nil
    with that show ?thesis by (cases r) auto
  next
    case (Cons c cs)
    with assms(2) show ?thesis by auto
  qed
  show "read_field (t @ comma # rest) = t # read_field rest"
    using p [of "comma # rest"] read_plain_run [OF assms(1,3,4), of "[]" "comma # rest"]
    by simp
  show "read_field t = [t]"
    using p [of "[]"] read_plain_run [OF assms(1,3,4), of "[]" "[]"]
    by simp
qed

lemma read_quoted_other:
  "c \<noteq> dquote \<Longrightarrow> xs \<noteq> [] \<Longrightarrow> read_quoted acc (c # xs) = read_quoted (c # acc) xs"
  by (cases xs) simp_all

lemma read_quoted_body:
  "read_quoted acc (replace_quotes t @ dquote # comma # rest) = (rev acc @ t) # read_field rest"
  "read_quoted acc (replace_quotes t @ [dquote]) = [rev acc @ t]"
proof (induction t arbitrary: acc)
  case Nil
  { case 1 show ?case by (simp add: replace_quotes_def) }
  { case 2 show ?case by (simp add: replace_quotes_def) }
next
  case (Cons c t)
  { case 1
    show ?case
    proof (cases "c = dquote")
      case True
      then show ?thesis
        using Cons.IH(1) [of "dquote # acc"] by (simp add: replace_quotes_def)
    next
      case False
      then show ?thesis
        using Cons.IH(1) [of "c # acc"] by (simp add: replace_quotes_def read_quoted_other)
    qed }
  { case 2
    show ?case
    proof (cases "c = dquote")
      case True
      then show ?thesis
        using Cons.IH(2) [of "dquote # acc"] by (simp add: replace_quotes_def)
    next
      case False
      then show ?thesis
        using Cons.IH(2) [of "c # acc"] by (simp add: replace_quotes_def read_quoted_other)
    qed }
qed

lemma read_field_csv_cell:
  assumes "line_safe (trim cell)"
  shows "read_field (csv_cell cell @ comma # rest) = trim cell # read_field rest"
    and "read_field (csv_cell cell) = [trim cell]"
proof -
  show "read_field (csv_cell cell @ comma # rest) = trim cell # read_field rest"
  proof (cases "comma \<in> set (trim cell) \<or> dquote \<in> set (trim cell)")
    case True
    then show ?thesis
      using read_quoted_body(1) [of "[]" "trim cell" rest] by (simp add: csv_cell_eq)
  next
    case False
    with assms show ?thesis
      by (simp add: csv_cell_eq line_safe_def read_field_plain(1))
  qed
  show "read_field (csv_cell cell) = [trim cell]"
  proof (cases "comma \<in> set (trim cell) \<or> dquote \<in> set (trim cell)")
    case True
    then show ?thesis
      using read_quoted_body(2) [of "[]" "trim cell"] by (simp add: csv_cell_eq)
  next
    case False
    with assms show ?thesis
      by (simp add: csv_cell_eq line_safe_def read_field_plain(2))
  qed
qed

lemma csv_read_record_row:
  assumes "cells \<noteq> []" and "list_all (\<lambda>cell. line_safe (trim cell)) cells"
  shows "csv_read_record (csv_row cells) = map trim cells"
  using assms
proof (induction cells)
  case Nil
  then show ?case by simp
next
  case (Cons cell cells)
  show ?case
  proof (cases "cells = []")
    case True
    with Cons.prems show ?thesis
      by (simp add: csv_read_record_def csv_row_def read_field_csv_cell(2))
  next
    case False
    with Cons have "read_field (join [comma] (map csv_cell cells)) = map trim cells"
      by (simp add: csv_read_record_def csv_row_def)
    with False Cons.prems show ?thesis
      by (simp add: csv_read_record_def csv_row_def join_Cons read_field_csv_cell(1))
  qed
qed

lemma exportTableToCSV_by_id:
  "map_of (elements_by_id doc) tableId = Some rows \<Longrightarrow>
   exportTableToCSV doc tableId filename = Some (filename, join [LF] (map csv_row rows))"
  by (simp add: exportTableToCSV_def find_table_def csvContent_def)

lemma exportTableToCSV_first_table:
  "map_of (elements_by_id doc) tableId = None \<Longrightarrow>
   exportTableToCSV doc tableId filename =
     map_option (\<lambda>rows. (filename, join [LF] (map csv_row rows))) (first_table doc)"
  by (simp add: exportTableToCSV_def find_table_def csvContent_def split: option.splits)

text \<open>
  Claim C9 (CSV escaping). The field written for a cell is the cell's trimmed text, unless
  that text holds a comma or a double quote: then every double quote is doubled and the
  whole is wrapped in double quotes. The cells \<^verbatim>\<open>a,b\<close> and \<^verbatim>\<open>say "hi"\<close> are
  written quoted, and the reader gives both back from the exported line, as it does for
  every row whose cells are quoted or hold no line break.
\<close>

theorem csv_export_escaping:
  "csv_cell cell =
     (if comma \<in> set (trim cell) \<or> dquote \<in> set (trim cell)
      then [dquote] @ concat (map (\<lambda>c. if c = dquote then [dquote, dquote] else [c]) (trim cell))
           @ [dquote]
      else trim cell)
   \<and> csv_cell ''a,b'' = [dquote] @ ''a,b'' @ [dquote]
   \<and> csv_cell (''say '' @ [dquote] @ ''hi'' @ [dquote]) =
       [dquote] @ ''say '' @ [dquote, dquote] @ ''hi'' @ [dquote, dquote] @ [dquote]
   \<and> csv_read_record (csv_row [''a,b'', ''say '' @ [dquote] @ ''hi'' @ [dquote]]) =
       [''a,b'', ''say '' @ [dquote] @ ''hi'' @ [dquote]]
   \<and> (cells \<noteq> [] \<and> list_all (\<lambda>cell. line_safe (trim cell)) cells \<longrightarrow>
        csv_read_record (csv_row cells) = map trim cells)"
proof -
  have t1: "trim ''a,b'' = ''a,b''"
    by (simp add: trim_def trimStart_def isWhiteSpace_def)
  have t2: "trim (''say '' @ [dquote] @ ''hi'' @ [dquote]) = ''say '' @ [dquote] @ ''hi'' @ [dquote]"
    by (simp add: trim_def trimStart_def isWhiteSpace_def dquote_def)
  have c1: "csv_cell ''a,b'' = [dquote] @ ''a,b'' @ [dquote]"
    by (simp add: csv_cell_eq t1 replace_quotes_def comma_def dquote_def)
  have c2: "csv_cell (''say '' @ [dquote] @ ''hi'' @ [dquote]) =
       [dquote] @ ''say '' @ [dquote, dquote] @ ''hi'' @ [dquote, dquote] @ [dquote]"
    unfolding csv_cell_eq t2 by (simp add: replace_quotes_def comma_def dquote_def)
  have r: "csv_read_record (csv_row [''a,b'', ''say '' @ [dquote] @ ''hi'' @ [dquote]]) =
       map trim [''a,b'', ''say '' @ [dquote] @ ''hi'' @ [dquote]]"
    by (rule csv_read_record_row)
      (simp_all add: line_safe_def trim_def trimStart_def isWhiteSpace_def dquote_def comma_def)
  show ?thesis
    using c1 c2 r t1 t2 csv_read_record_row [of cells]
    by (simp add: csv_cell_eq replace_quotes_def)
qed

theorem csv_export_escaping_witness:
  "[''x'', ''  1,5 '', ''a'' @ [dquote] @ ''b'' @ [LF]] \<noteq> []
   \<and> list_all (\<lambda>cell. line_safe (trim cell)) [''x'', ''  1,5 '', ''a'' @ [dquote] @ ''b'' @ [LF]]
   \<and> csv_row [''x'', ''  1,5 '', ''a'' @ [dquote] @ ''b'' @ [LF]] =
       ''x,'' @ [dquote] @ ''1,5'' @ [dquote] @ '','' @ [dquote] @ ''a'' @ [dquote, dquote] @ ''b'' @ [dquote]
   \<and> csv_read_record (csv_row [''x'', ''  1,5 '', ''a'' @ [dquote] @ ''b'' @ [LF]]) =
       [''x'', ''1,5'', ''a'' @ [dquote] @ ''b'']"
  using csv_export_escaping [of "''x''" "[''x'', ''  1,5 '', ''a'' @ [dquote] @ ''b'' @ [LF]]"]
  by (simp add: line_safe_def trim_def trimStart_def isWhiteSpace_def dquote_def comma_def LF_def
      CR_def csv_row_def csv_cell_def replace_quotes_def)

section \<open>Properties of the table sort\<close>

lemma mset_insert_sorted:
  "insert_sorted cmp x ys = Inr zs \<Longrightarrow> mset zs = add_mset x (mset ys)"
proof (induction ys arbitrary: zs)
  case Nil
  then show ?case by auto
next
  case (Cons y ys)
  then show ?case
    by (auto split: sum.splits if_splits)
qed

lemma mset_sort_from:
  "sort_from cmp acc xs = Inr zs \<Longrightarrow> mset zs = mset acc + mset xs"
proof (induction xs arbitrary: acc zs)
  case Nil
  then show ?case by simp
next
  case (Cons x xs)
  then obtain acc' where a: "insert_sorted cmp x acc = Inr acc'"
    and s: "sort_from cmp acc' xs = Inr zs"
    by (auto split: sum.splits)
  from Cons.IH [OF s] mset_insert_sorted [OF a] show ?case by simp
qed

lemma mset_array_sort: "array_sort cmp xs = Inr zs \<Longrightarrow> mset zs = mset xs"
  by (auto simp: array_sort_def dest: mset_sort_from)

lemma fold_appendChild_moves:
  "mset ys = mset r \<Longrightarrow> fold appendChild ys (r @ p) = p @ ys"
proof (induction ys arbitrary: r p)
  case Nil
  then show ?case by simp
next
  case (Cons y ys)
  have m: "y \<in> set r"
    using Cons.prems by (metis list.set_intros(1) mset_eq_setD)
  have "mset ys = mset (remove1 y r)"
    using Cons.prems by (metis add_mset_remove_trivial mset.simps(2) mset_remove1)
  from Cons.IH [OF this, of "p @ [y]"] m show ?case
    by (simp add: appendChild_def remove1_append)
qed

lemma fold_appendChild_sorted:
  "mset ys = mset xs \<Longrightarrow> fold appendChild ys xs = ys"
  using fold_appendChild_moves [of ys xs "[]"] by simp

lemma sortTable_Inr:
  assumes "tbody t = Some rows"
    and "array_sort (compare_rows localeCompare columnIndex isNumeric) rows = Inr sorted_rows"
  shows "sortTable localeCompare t columnIndex isNumeric = Inr (t\<lparr>tbody := Some sorted_rows\<rparr>)"
  using assms fold_appendChild_sorted [OF mset_array_sort [OF assms(2)]]
  by (simp add: sortTable_def)

lemma sortTable_numeric_example:
  "sortTable lc ex_table 0 True =
     Inr (ex_table\<lparr>tbody := Some [[''1'', ''cog''], [''2'', ''nut''], [''10'', ''bolt'']]\<rparr>)"
  by (simp add: sortTable_def ex_table_def array_sort_def compare_rows_def cell_text_def
      trim_def trimStart_def isWhiteSpace_def strip_non_numeric_def isDigit_def parseFloat_def
      digits_value_def number_minus_def precedes_def appendChild_def Let_def)

text \<open>
  Claim C10 (sorting permutes). Whatever the column and the mode, and whether the sort
  completes or the comparator throws, the body rows after \<^verbatim>\<open>sortTable\<close> are the
  body rows before it, as a multiset: no row is created, dropped or duplicated.
\<close>

theorem sortTable_permutes_rows:
  "mset (body_rows (state_after (sortTable localeCompare t columnIndex isNumeric))) =
   mset (body_rows t)"
proof (cases "tbody t")
  case None
  then show ?thesis by (simp add: sortTable_def)
next
  case (Some rows)
  show ?thesis
  proof (cases "array_sort (compare_rows localeCompare columnIndex isNumeric) rows")
    case (Inl e)
    with Some show ?thesis by (simp add: sortTable_def)
  next
    case (Inr sorted_rows)
    from sortTable_Inr [OF Some Inr] mset_array_sort [OF Inr] Some
    show ?thesis by (simp add: body_rows_def)
  qed
qed

theorem sortTable_permutes_rows_witness:
  "body_rows (state_after (sortTable (\<lambda>a b. 0) ex_table 0 True)) =
     [[''1'', ''cog''], [''2'', ''nut''], [''10'', ''bolt'']]
   \<and> mset (body_rows (state_after (sortTable (\<lambda>a b. 0) ex_table 0 True))) =
      mset [[''10'', ''bolt''], [''2'', ''nut''], [''1'', ''cog'']]"
proof -
  have b: "body_rows ex_table = [[''10'', ''bolt''], [''2'', ''nut''], [''1'', ''cog'']]"
    by (simp add: body_rows_def ex_table_def)
  have "body_rows (state_after (sortTable (\<lambda>a b. 0) ex_table 0 True)) =
     [[''1'', ''cog''], [''2'', ''nut''], [''10'', ''bolt'']]"
    by (simp add: sortTable_numeric_example body_rows_def)
  with sortTable_permutes_rows [of "\<lambda>a b. 0" ex_table 0 True] b show ?thesis
    by (simp only:)
qed

end
